theory Spec2Isabelle
  imports Main
begin

section \<open>Values, errors and observable effects\<close>

text \<open>
  JavaScript values that cross the boundary to foreign code (arguments of component
  hooks, event payloads). \<open>JMix\<close> is the reference to the orchestrator object itself,
  the payload of the \<open>init\<close> event.
\<close>

datatype jsval = JUndefined | JBool bool | JNum int | JStr string | JMix

text \<open>
  A thrown exception (or rejected promise). \<open>TypeError\<close> is raised by the runtime
  (calling a member of \<open>undefined\<close>, a non-string argument of \<open>path.posix.join\<close>);
  \<open>Thrown\<close> is whatever foreign code throws.
\<close>

datatype error = TypeError string | Thrown string

text \<open>The optional members of a component that the registrar calls.\<close>

datatype hook_name =
  Register | Dependencies | Boot | BabelConfig
  | WebpackEntry | WebpackRules | WebpackPlugins | WebpackConfig

text \<open>
  The effects the code has on its collaborators, in the order they happen. Calls into
  modules of the repository that are not part of the sources read here
  (\<open>BuildGroup.makeCurrent\<close>, \<open>Components.record\<close>, \<open>Dependencies\<close>,
  \<open>HotReloading\<close>, \<open>mergeWebpackConfig\<close>), into the platform (\<open>console.warn\<close>,
  \<open>Dotenv\<close>, \<open>import\<close>) and into user code (component hooks, extra API methods,
  callbacks) are logged with their arguments. \<open>CallerSet\<close> and \<open>ActivatedSet\<close> log the
  two field writes of the composite method, so that their order relative to the calls
  can be stated.
\<close>

datatype event =
  MakeCurrent nat
  | Warn string
  | DotenvConfig
  | SetGlobals
  | Import
  | HotRecord
  | InstallQueued
  | Queue "string list" bool
  | Recorded string nat
  | CallerSet nat string
  | ActivatedSet nat
  | HookCalled nat hook_name "jsval list"
  | MergeBabelConfig nat
  | RulesPushed nat
  | PluginsPushed nat
  | ExtraCalled nat string "jsval list"
  | Foreign string

section \<open>Components\<close>

text \<open>
  A component object as \<open>ComponentRegistrar\<close> reads and writes it.
  \<^item> \<open>name_fn\<close>: \<open>Some ns\<close> when \<open>typeof component.name === 'function'\<close>, with
    \<open>ns = [].concat(component.name())\<close> (a single string gives a one-element list);
  \<^item> \<open>constructor_name\<close>: \<open>component.constructor.name\<close>; \<open>passive_flag\<close>: whether
    \<open>component.passive\<close> is truthy (\<open>passive\<close> alone is a reserved word here);
  \<^item> \<open>hooks h\<close>: \<open>None\<close> when the member is absent (falsy); \<open>Some f\<close> when it is a
    function, where \<open>f args\<close> is \<open>None\<close> if the call returns and \<open>Some e\<close> if it throws
    \<open>e\<close>;
  \<^item> \<open>mix_keys\<close>: \<open>Some ks\<close> when \<open>component.mix\<close> is present, with
    \<open>ks = Object.keys(component.mix())\<close>;
  \<^item> \<open>dependencies_result\<close>, \<open>rules_result\<close>, \<open>plugins_result\<close>: what
    \<open>dependencies()\<close> returns, and whether \<open>webpackRules()\<close> / \<open>webpackPlugins()\<close>
    return something truthy.
\<close>

record component =
  name_fn :: "string list option"
  constructor_name :: string
  passive_flag :: bool
  activated :: bool
  caller :: "string option"
  hooks :: "hook_name \<Rightarrow> (jsval list \<Rightarrow> error option) option"
  mix_keys :: "string list option"
  dependencies_result :: "string list"
  requiresReload :: bool
  rules_result :: bool
  plugins_result :: bool

text \<open>
  The functions stored on the API surface \<open>registrar.components\<close>: the composite
  method generated by \<open>register\<close> for a component and an alias (a closure over both),
  or a method taken from \<open>component.mix()\<close>.
\<close>

datatype api_method = Composite nat string | Extra nat string

text \<open>What a call on the API surface returns: the surface itself, or a foreign value.\<close>

datatype ret = RetApi | RetForeign

text \<open>
  The closures handed to \<open>Mix.listen\<close>: the two of \<open>ComponentRegistrar.install\<close>,
  the four that the \<open>init\<close> listener registers, and the one of \<open>Mix.boot\<close>.
\<close>

datatype handler =
  GatherDependencies nat
  | InitComponent nat
  | LoadingEntry nat
  | LoadingRules nat
  | LoadingPlugins nat
  | ConfigReady nat
  | HotRecordHandler

section \<open>The orchestrator state\<close>

record build_group =
  group_id :: nat
  group_name :: string

text \<open>
  The \<open>Mix\<close> object with its dispatcher, registrar and \<open>Components\<close> registry.
  \<open>current\<close> is the private stack \<open>#current\<close> (top of stack last, as \<open>push\<close> and
  \<open>pop\<close> work on the end of the array); \<open>listeners\<close> is the dispatcher's table in
  registration order; \<open>api\<close> is \<open>registrar.components\<close>; \<open>heap\<close> holds the component
  objects by reference; \<open>recorded\<close> is the \<open>Components\<close> registry.
\<close>

record mix =
  current :: "build_group list"
  groups :: "build_group list"
  booted :: bool
  initialized :: bool
  publicPath :: string
  listeners :: "(string \<times> handler) list"
  api :: "string \<rightharpoonup> api_method"
  heap :: "nat \<Rightarrow> component"
  next_ref :: nat
  recorded :: "string \<rightharpoonup> nat"
  trace :: "event list"

type_synonym 'a prog = "mix \<Rightarrow> (error + 'a) \<times> mix"

definition emit :: "event \<Rightarrow> mix \<Rightarrow> mix" where
  "emit e m = m\<lparr>trace := trace m @ [e]\<rparr>"

definition blank_component :: component where
  "blank_component =
     \<lparr>name_fn = None, constructor_name = ''Object'', passive_flag = False, activated = False,
      caller = None, hooks = (\<lambda>_. None), mix_keys = None, dependencies_result = [],
      requiresReload = False, rules_result = False, plugins_result = False\<rparr>"

definition defaultGroup :: build_group where
  "defaultGroup = \<lparr>group_id = 0, group_name = ''Mix''\<rparr>"

text \<open>
  The constructor of \<open>Mix\<close>. \<open>pub\<close> is the \<open>publicPath\<close> of the configuration that
  \<open>buildConfig\<close> returns.
\<close>

definition new_mix :: "string \<Rightarrow> mix" where
  "new_mix pub =
     \<lparr>current = [defaultGroup], groups = [defaultGroup], booted = False,
      initialized = False, publicPath = pub, listeners = [], api = Map.empty,
      heap = (\<lambda>_. blank_component), next_ref = 0, recorded = Map.empty, trace = []\<rparr>"

section \<open>The scope stack\<close>

text \<open>\<open>get currentGroup\<close>: the last element of \<open>#current\<close>, \<open>undefined\<close> on an empty array.\<close>

definition currentGroup :: "mix \<Rightarrow> build_group option" where
  "currentGroup m = (if current m = [] then None else Some (last (current m)))"

text \<open>
  Modelled from the spec: \<open>BuildGroup.makeCurrent\<close>, which is not among the sources.
  The spec's \<open>push(scope)\<close> "marks scope current, returns it": the call is logged and
  gives back the group it was called on.
\<close>

definition group_makeCurrent :: "build_group \<Rightarrow> mix \<Rightarrow> build_group \<times> mix" where
  "group_makeCurrent g m = (g, emit (MakeCurrent (group_id g)) m)"

definition pushCurrent :: "build_group \<Rightarrow> mix \<Rightarrow> mix" where
  "pushCurrent g m =
     (case group_makeCurrent g m of (g', m') \<Rightarrow> m'\<lparr>current := current m' @ [g']\<rparr>)"

text \<open>
  \<open>popCurrent\<close>: nothing at depth 1; otherwise \<open>pop\<close> and \<open>makeCurrent\<close> on the new
  top. On an empty array \<open>pop\<close> changes nothing and \<open>currentGroup\<close> is \<open>undefined\<close>,
  so the member call throws.
\<close>

definition popCurrent :: "unit prog" where
  "popCurrent m =
     (if length (current m) = 1 then (Inr (), m)
      else
        let m' = m\<lparr>current := butlast (current m)\<rparr> in
        (case currentGroup m' of
           None \<Rightarrow> (Inl (TypeError ''Cannot read properties of undefined''), m')
         | Some g \<Rightarrow> (Inr (), snd (group_makeCurrent g m'))))"

text \<open>A sequence of calls of the two stack operations.\<close>

datatype stack_op = Push build_group | Pop

fun stack_ops :: "stack_op list \<Rightarrow> unit prog" where
  "stack_ops [] m = (Inr (), m)"
| "stack_ops (Push g # ops) m = stack_ops ops (pushCurrent g m)"
| "stack_ops (Pop # ops) m =
     (case popCurrent m of
        (Inl e, m') \<Rightarrow> (Inl e, m')
      | (Inr _, m') \<Rightarrow> stack_ops ops m')"

text \<open>
  Modelled from the spec: \<open>BuildGroup.whileCurrent\<close>, which is not among the sources.
  "Pushes a scope, invokes \<open>fn\<close> (possibly asynchronous), and guarantees \<open>pop\<close> runs on
  every exit path, including a thrown/rejected \<open>fn\<close>": the push and the pop are the
  orchestrator's \<open>pushCurrent\<close> and \<open>popCurrent\<close>; the outcome of \<open>fn\<close> is passed on,
  unless the pop itself throws.
\<close>

definition whileCurrent :: "build_group \<Rightarrow> 'a prog \<Rightarrow> 'a prog" where
  "whileCurrent g fn m =
     (case fn (pushCurrent g m) of
        (r, m2) \<Rightarrow>
          (case popCurrent m2 of
             (Inl e, m3) \<Rightarrow> (Inl e, m3)
           | (Inr _, m3) \<Rightarrow> (r, m3)))"

section \<open>The component registrar\<close>

text \<open>
  \<open>component.h && component.h(...args)\<close>: an absent member is skipped, a present one
  is called with the arguments and returns or throws.
\<close>

definition call_hook :: "nat \<Rightarrow> hook_name \<Rightarrow> jsval list \<Rightarrow> unit prog" where
  "call_hook c h args m =
     (case hooks (heap m c) h of
        None \<Rightarrow> (Inr (), m)
      | Some f \<Rightarrow>
          (case f args of
             None \<Rightarrow> (Inr (), emit (HookCalled c h args) m)
           | Some e \<Rightarrow> (Inl e, emit (HookCalled c h args) m)))"

text \<open>
  Modelled from the spec: \<open>Components.record\<close>, which is not among the sources. It
  "records the component instance under that alias for later introspection", and
  "alias lookup returns" the component recorded last.
\<close>

definition components_record :: "string \<Rightarrow> nat \<Rightarrow> mix \<Rightarrow> mix" where
  "components_record name c m = emit (Recorded name c) (m\<lparr>recorded := (recorded m)(name \<mapsto> c)\<rparr>)"

definition set_caller :: "nat \<Rightarrow> string \<Rightarrow> mix \<Rightarrow> mix" where
  "set_caller c name m =
     emit (CallerSet c name) (m\<lparr>heap := (heap m)(c := (heap m c)\<lparr>caller := Some name\<rparr>)\<rparr>)"

definition set_activated :: "nat \<Rightarrow> mix \<Rightarrow> mix" where
  "set_activated c m =
     emit (ActivatedSet c) (m\<lparr>heap := (heap m)(c := (heap m c)\<lparr>activated := True\<rparr>)\<rparr>)"

text \<open>
  The arrow function that \<open>register\<close> stores under \<open>this.components[name]\<close>, for the
  component \<open>c\<close> and the alias \<open>name\<close> it closes over.
\<close>

definition composite :: "nat \<Rightarrow> string \<Rightarrow> jsval list \<Rightarrow> ret prog" where
  "composite c name args m =
     (case call_hook c Register args (set_caller c name (components_record name c m)) of
        (Inl e, m') \<Rightarrow> (Inl e, m')
      | (Inr _, m') \<Rightarrow> (Inr RetApi, set_activated c m'))"

fun call_method :: "api_method \<Rightarrow> jsval list \<Rightarrow> ret prog" where
  "call_method (Composite c name) args m = composite c name args m"
| "call_method (Extra c key) args m = (Inr RetForeign, emit (ExtraCalled c key args) m)"

text \<open>
  A call \<open>api[name](...args)\<close> on the API surface, as user configuration code and
  \<open>register\<close> itself make it; a missing member is not callable.
\<close>

definition invoke :: "string \<Rightarrow> jsval list \<Rightarrow> ret prog" where
  "invoke name args m =
     (case api m name of
        None \<Rightarrow> (Inl (TypeError ''is not a function''), m)
      | Some f \<Rightarrow> call_method f args m)"

definition lower :: "char \<Rightarrow> char" where
  "lower ch =
     (case map_of (zip ''ABCDEFGHIJKLMNOPQRSTUVWXYZ'' ''abcdefghijklmnopqrstuvwxyz'') ch of
        None \<Rightarrow> ch
      | Some l \<Rightarrow> l)"

text \<open>\<open>.replace(/^([A-Z])/, letter => letter.toLowerCase())\<close>\<close>

fun lower_first :: "string \<Rightarrow> string" where
  "lower_first [] = []"
| "lower_first (ch # cs) = lower ch # cs"

definition component_names :: "component \<Rightarrow> string list" where
  "component_names obj =
     (case name_fn obj of
        Some ns \<Rightarrow> ns
      | None \<Rightarrow> [lower_first (constructor_name obj)])"

text \<open>
  The inner function \<open>register\<close> of \<open>registerComponent\<close>: store the composite method,
  call it at once for a passive component, then write the members of
  \<open>component.mix()\<close> onto the API surface, in key order.
\<close>

definition register_name :: "nat \<Rightarrow> string \<Rightarrow> unit prog" where
  "register_name c name m =
     (let m1 = m\<lparr>api := (api m)(name \<mapsto> Composite c name)\<rparr> in
      (case (if passive_flag (heap m1 c) then invoke name [] m1 else (Inr RetApi, m1)) of
         (Inl e, m2) \<Rightarrow> (Inl e, m2)
       | (Inr _, m2) \<Rightarrow>
           (case mix_keys (heap m2 c) of
              None \<Rightarrow> (Inr (), m2)
            | Some ks \<Rightarrow> (Inr (), m2\<lparr>api := fold (\<lambda>k a. a(k \<mapsto> Extra c k)) ks (api m2)\<rparr>))))"

fun register_all :: "nat \<Rightarrow> string list \<Rightarrow> unit prog" where
  "register_all c [] m = (Inr (), m)"
| "register_all c (name # names) m =
     (case register_name c name m of
        (Inl e, m') \<Rightarrow> (Inl e, m')
      | (Inr _, m') \<Rightarrow> register_all c names m')"

definition registerComponent :: "nat \<Rightarrow> unit prog" where
  "registerComponent c m = register_all c (component_names (heap m c)) m"

text \<open>
  Modelled from the spec: \<open>Dispatcher.listen\<close>, which is not among the sources. It
  "registers handler at the end of the ordered list for eventName; no uniqueness
  constraint".
\<close>

definition listen :: "string \<Rightarrow> handler \<Rightarrow> mix \<Rightarrow> mix" where
  "listen ev h m = m\<lparr>listeners := listeners m @ [(ev, h)]\<rparr>"

text \<open>
  What \<open>install\<close> is given: a class extending the internal \<open>Component\<close> (constructed
  with the orchestrator), any other constructor function (constructed without
  arguments), or a ready object. The record is the object the constructor yields.
\<close>

datatype component_definition = InternalClass component | PlainClass component | Instance nat

definition allocate :: "component \<Rightarrow> mix \<Rightarrow> nat \<times> mix" where
  "allocate obj m =
     (next_ref m, m\<lparr>heap := (heap m)(next_ref m := obj), next_ref := Suc (next_ref m)\<rparr>)"

fun instantiate :: "component_definition \<Rightarrow> mix \<Rightarrow> nat \<times> mix" where
  "instantiate (InternalClass obj) m = allocate obj m"
| "instantiate (PlainClass obj) m = allocate obj m"
| "instantiate (Instance c) m = (c, m)"

definition install :: "component_definition \<Rightarrow> ret prog" where
  "install d m =
     (case instantiate d m of
        (c, m1) \<Rightarrow>
          (case registerComponent c m1 of
             (Inl e, m2) \<Rightarrow> (Inl e, m2)
           | (Inr _, m2) \<Rightarrow>
               (Inr RetApi,
                listen ''init'' (InitComponent c)
                  (listen ''internal:gather-dependencies'' (GatherDependencies c) m2))))"

text \<open>
  \<open>component.babelConfig && this.applyBabelConfig(component)\<close>: the hook's result is
  merged into the shared Babel configuration by \<open>mergeWebpackConfig\<close>.
\<close>

definition applyBabelConfig :: "nat \<Rightarrow> unit prog" where
  "applyBabelConfig c m =
     (if hooks (heap m c) BabelConfig = None then (Inr (), m)
      else
        (case call_hook c BabelConfig [] m of
           (Inl e, m') \<Rightarrow> (Inl e, m')
         | (Inr _, m') \<Rightarrow> (Inr (), emit (MergeBabelConfig c) m')))"

text \<open>
  \<open>applyRules\<close> and \<open>applyPlugins\<close>, each behind the presence test of its listener:
  the hook is called and a truthy result is pushed onto the array passed with the event.
\<close>

definition applyRules :: "nat \<Rightarrow> unit prog" where
  "applyRules c m =
     (if hooks (heap m c) WebpackRules = None then (Inr (), m)
      else
        (case call_hook c WebpackRules [] m of
           (Inl e, m') \<Rightarrow> (Inl e, m')
         | (Inr _, m') \<Rightarrow>
             (Inr (), if rules_result (heap m' c) then emit (RulesPushed c) m' else m')))"

definition applyPlugins :: "nat \<Rightarrow> unit prog" where
  "applyPlugins c m =
     (if hooks (heap m c) WebpackPlugins = None then (Inr (), m)
      else
        (case call_hook c WebpackPlugins [] m of
           (Inl e, m') \<Rightarrow> (Inl e, m')
         | (Inr _, m') \<Rightarrow>
             (Inr (), if plugins_result (heap m' c) then emit (PluginsPushed c) m' else m')))"

text \<open>The bodies of the listeners, run with the event's payload.\<close>

fun run_handler :: "handler \<Rightarrow> jsval \<Rightarrow> unit prog" where
  "run_handler (GatherDependencies c) d m =
     (if \<not> activated (heap m c) \<and> \<not> passive_flag (heap m c) then (Inr (), m)
      else if hooks (heap m c) Dependencies = None then (Inr (), m)
      else
        (case call_hook c Dependencies [] m of
           (Inl e, m') \<Rightarrow> (Inl e, m')
         | (Inr _, m') \<Rightarrow>
             (Inr (),
              emit (Queue (dependencies_result (heap m' c)) (requiresReload (heap m' c))) m')))"
| "run_handler (InitComponent c) d m =
     (if \<not> activated (heap m c) \<and> \<not> passive_flag (heap m c) then (Inr (), m)
      else
        (case call_hook c Boot [] m of
           (Inl e, m1) \<Rightarrow> (Inl e, m1)
         | (Inr _, m1) \<Rightarrow>
             (case applyBabelConfig c m1 of
                (Inl e, m2) \<Rightarrow> (Inl e, m2)
              | (Inr _, m2) \<Rightarrow>
                  (Inr (),
                   listen ''configReady'' (ConfigReady c)
                     (listen ''loading-plugins'' (LoadingPlugins c)
                        (listen ''loading-rules'' (LoadingRules c)
                           (listen ''loading-entry'' (LoadingEntry c) m2)))))))"
| "run_handler (LoadingEntry c) d m = call_hook c WebpackEntry [d] m"
| "run_handler (LoadingRules c) d m = applyRules c m"
| "run_handler (LoadingPlugins c) d m = applyPlugins c m"
| "run_handler (ConfigReady c) d m = call_hook c WebpackConfig [d] m"
| "run_handler HotRecordHandler d m = (Inr (), emit HotRecord m)"

section \<open>The event dispatcher\<close>

fun run_handlers :: "handler list \<Rightarrow> jsval \<Rightarrow> unit prog" where
  "run_handlers [] d m = (Inr (), m)"
| "run_handlers (h # hs) d m =
     (case run_handler h d m of
        (Inl e, m') \<Rightarrow> (Inl e, m')
      | (Inr _, m') \<Rightarrow> run_handlers hs d m')"

text \<open>
  Modelled from the spec: \<open>Dispatcher.fire\<close>, which is not among the sources. It
  "awaits each registered handler for eventName in registration order, sequentially;
  resolves once all complete; resolves immediately (no error) if no handlers exist";
  "any handler rejecting aborts remaining handlers for that \<open>fire\<close> call and propagates
  to the caller". The handlers are those registered when \<open>fire\<close> is called.
\<close>

definition fire :: "string \<Rightarrow> jsval \<Rightarrow> unit prog" where
  "fire ev d m = run_handlers (map snd (filter (\<lambda>p. fst p = ev) (listeners m))) d m"

section \<open>The orchestrator\<close>

text \<open>The \<open>data\<close> argument of \<open>dispatch\<close>: a value, or a function that yields one.\<close>

datatype payload = Val jsval | Thunk jsval

definition dispatch :: "string \<Rightarrow> payload \<Rightarrow> unit prog" where
  "dispatch ev data m =
     (case currentGroup m of
        None \<Rightarrow> (Inl (TypeError ''Cannot read properties of undefined''), m)
      | Some g \<Rightarrow>
          whileCurrent g
            (\<lambda>s. case data of
                   Val v \<Rightarrow> fire ev v s
                 | Thunk v \<Rightarrow> fire ev v (emit (Foreign ''data'') s))
            m)"

text \<open>\<open>Mix.makeCurrent\<close>: set the globals, then make the first group current.\<close>

definition mix_makeCurrent :: "unit prog" where
  "mix_makeCurrent m =
     (let m1 = emit SetGlobals m in
      (case groups m1 of
         [] \<Rightarrow> (Inl (TypeError ''Cannot read properties of undefined''), m1)
       | g # _ \<Rightarrow> (Inr (), snd (group_makeCurrent g m1))))"

text \<open>
  \<open>Mix.boot\<close>. \<open>laravel\<close> is the answer of \<open>this.sees('laravel')\<close>, that is of
  \<open>File.exists('./artisan')\<close>.
\<close>

definition boot :: "bool \<Rightarrow> unit prog" where
  "boot laravel m =
     (if booted m then (Inr (), m)
      else
        let m1 = emit DotenvConfig (m\<lparr>booted := True\<rparr>);
            m2 = (if laravel then m1\<lparr>publicPath := ''public''\<rparr> else m1)
        in mix_makeCurrent (listen ''init'' HotRecordHandler m2))"

definition addGroup :: "string \<Rightarrow> mix \<Rightarrow> mix" where
  "addGroup name m =
     m\<lparr>groups := groups m @ [\<lparr>group_id = length (groups m), group_name = name\<rparr>]\<rparr>"

text \<open>
  \<open>get buildableGroups\<close> and \<open>Mix.build\<close>. \<open>BuildGroup\<close> is not among the sources:
  \<open>should g\<close> stands for \<open>g.shouldBeBuilt\<close> and \<open>config g\<close> for the configuration
  object that \<open>g.config()\<close> resolves to; \<open>Promise.all\<close> keeps the order of its input.
\<close>

definition buildableGroups :: "(build_group \<Rightarrow> bool) \<Rightarrow> mix \<Rightarrow> build_group list" where
  "buildableGroups should m = filter should (groups m)"

definition not_set_up :: string where
  "not_set_up = ''Mix was not set up correctly. Please ensure you import or require laravel-mix in your mix config.''"

definition build ::
  "(build_group \<Rightarrow> bool) \<Rightarrow> (build_group \<Rightarrow> 'c) \<Rightarrow> bool \<Rightarrow> ('c list) prog" where
  "build should config laravel m =
     (case (if \<not> booted m then boot laravel (emit (Warn not_set_up) m) else (Inr (), m)) of
        (Inl e, m') \<Rightarrow> (Inl e, m')
      | (Inr _, m') \<Rightarrow> (Inr (map config (buildableGroups should m')), m'))"

text \<open>
  \<open>Mix.load\<close>. \<open>mod_default\<close> is \<open>Some fn\<close> when the imported module's default export is
  a function.
\<close>

definition load :: "unit prog option \<Rightarrow> unit prog" where
  "load mod_default m =
     (let m1 = emit Import m in
      (case mod_default of
         None \<Rightarrow> (Inr (), m1)
       | Some fn \<Rightarrow>
           (case currentGroup m1 of
              None \<Rightarrow> (Inl (TypeError ''Cannot read properties of undefined''), m1)
            | Some g \<Rightarrow> whileCurrent g fn m1)))"

definition installDependencies :: "unit prog" where
  "installDependencies m =
     (case dispatch ''internal:gather-dependencies'' (Val JUndefined) m of
        (Inl e, m') \<Rightarrow> (Inl e, m')
      | (Inr _, m') \<Rightarrow> (Inr (), emit InstallQueued m'))"

definition init :: "unit prog" where
  "init m =
     (if initialized m then (Inr (), m)
      else dispatch ''init'' (Val JMix) (m\<lparr>initialized := True\<rparr>))"

section \<open>Paths\<close>

text \<open>
  \<open>path.posix.join\<close> of the Node.js standard library, for the two arguments
  \<open>Manifest.get\<close> gives it, after the library's algorithm: every argument must be a
  string (\<open>undefined\<close>, here \<open>None\<close>, throws a \<open>TypeError\<close>); the non-empty arguments are
  joined with \<open>/\<close> and the result is normalized: empty and \<open>.\<close> segments are dropped, a
  \<open>..\<close> segment removes the segment before it (or stays, in a relative path that has
  nothing to remove), a leading and a trailing slash are kept.
\<close>

fun split_on :: "char \<Rightarrow> string \<Rightarrow> string list" where
  "split_on sep [] = [[]]"
| "split_on sep (ch # cs) =
     (if ch = sep then [] # split_on sep cs
      else (case split_on sep cs of [] \<Rightarrow> [[ch]] | s # ss \<Rightarrow> (ch # s) # ss))"

fun normalize_segments :: "bool \<Rightarrow> string list \<Rightarrow> string list \<Rightarrow> string list" where
  "normalize_segments allowAboveRoot [] res = res"
| "normalize_segments allowAboveRoot (seg # segs) res =
     normalize_segments allowAboveRoot segs
       (if seg = [] \<or> seg = ''.'' then res
        else if seg = ''..'' then
          (if res \<noteq> [] \<and> last res \<noteq> ''..'' then butlast res
           else if allowAboveRoot then res @ [''..'']
           else res)
        else res @ [seg])"

fun join_with :: "string \<Rightarrow> string list \<Rightarrow> string" where
  "join_with sep [] = []"
| "join_with sep [s] = s"
| "join_with sep (s # t # ss) = s @ sep @ join_with sep (t # ss)"

definition posix_normalize :: "string \<Rightarrow> string" where
  "posix_normalize p =
     (if p = [] then ''.''
      else
        let isAbsolute = (hd p = CHR ''/'');
            trailingSeparator = (last p = CHR ''/'');
            q = join_with ''/'' (normalize_segments (\<not> isAbsolute) (split_on CHR ''/'' p) [])
        in if q = [] then (if isAbsolute then ''/'' else if trailingSeparator then ''./'' else ''.'')
           else (if isAbsolute then ''/'' else []) @ q @ (if trailingSeparator then ''/'' else []))"

definition invalid_arg_type :: error where
  "invalid_arg_type = TypeError ''The path argument must be of type string. Received undefined''"

fun posix_join :: "string \<Rightarrow> string option \<Rightarrow> error + string" where
  "posix_join a None = Inl invalid_arg_type"
| "posix_join a (Some b) =
     Inr (if a = [] \<and> b = [] then ''.''
          else posix_normalize (if a = [] then b else if b = [] then a else a @ ''/'' @ b))"

section \<open>The manifest\<close>

text \<open>
  \<open>this.manifest\<close>, a plain object with string keys, as the list of its properties in
  insertion order. \<open>assign\<close> is \<open>this.manifest[key] = value\<close>: an existing property keeps
  its place. A lookup is \<open>map_of\<close>; a key that is missing gives \<open>undefined\<close>, here \<open>None\<close>
  (every key starts with \<open>/\<close>, so none names a member of \<open>Object.prototype\<close>).
\<close>

type_synonym manifest = "(string \<times> string) list"

fun assign :: "manifest \<Rightarrow> string \<Rightarrow> string \<Rightarrow> manifest" where
  "assign [] key v = [(key, v)]"
| "assign ((k, w) # m) key v = (if k = key then (key, v) # m else (k, w) # assign m key v)"

text \<open>
  \<open>normalizePath\<close>, with \<open>pub\<close> for \<open>this.mix.config.publicPath\<close>: strip a non-empty
  public path from the front, turn backslashes into slashes, put a slash in front.
\<close>

definition normalizePath :: "string \<Rightarrow> string \<Rightarrow> string" where
  "normalizePath pub filePath =
     (let f1 = (if pub \<noteq> [] \<and> take (length pub) filePath = pub
                then drop (length pub) filePath else filePath);
          f2 = map (\<lambda>ch. if ch = CHR 0x5C then CHR ''/'' else ch) f1
      in if f2 \<noteq> [] \<and> hd f2 = CHR ''/'' then f2 else CHR ''/'' # f2)"

text \<open>The character class \<open>\w\<close>.\<close>

definition word_char :: "char \<Rightarrow> bool" where
  "word_char ch =
     (ch \<in> set ''abcdefghijklmnopqrstuvwxyzABCDEFGHIJKLMNOPQRSTUVWXYZ0123456789_'')"

text \<open>\<open>/\?id=\w{20}/\<close> matches at the front of the string.\<close>

definition matches_id :: "string \<Rightarrow> bool" where
  "matches_id s =
     (take 4 s = ''?id='' \<and> length (take 20 (drop 4 s)) = 20
      \<and> list_all word_char (take 20 (drop 4 s)))"

text \<open>\<open>.replace(/\?id=\w{20}/, '')\<close>: the leftmost match is removed.\<close>

fun strip_id :: "string \<Rightarrow> string" where
  "strip_id [] = []"
| "strip_id (ch # cs) = (if matches_id (ch # cs) then drop 24 (ch # cs) else ch # strip_id cs)"

definition add :: "string \<Rightarrow> string \<Rightarrow> manifest \<Rightarrow> manifest" where
  "add pub filePath m =
     (let fp = normalizePath pub filePath; original = strip_id fp in assign m original fp)"

text \<open>
  Modelled from the spec: \<open>File.version\<close>, which is not among the sources. It yields the
  "20-character content hash" of the file at the path: \<open>fs\<close> maps the paths of the
  existing files to their content, \<open>hash20\<close> is the hash function; a missing file throws.
\<close>

definition file_version :: "(string \<rightharpoonup> 'c) \<Rightarrow> ('c \<Rightarrow> string) \<Rightarrow> string \<Rightarrow> error + string" where
  "file_version fs hash20 p =
     (case fs p of None \<Rightarrow> Inl (Thrown ''ENOENT'') | Some content \<Rightarrow> Inr (hash20 content))"

text \<open>\<open>Manifest.hash\<close>; \<open>path.join\<close> is \<open>path.posix.join\<close> on a POSIX platform.\<close>

definition hash :: "(string \<rightharpoonup> 'c) \<Rightarrow> ('c \<Rightarrow> string) \<Rightarrow> string \<Rightarrow> string \<Rightarrow> manifest \<Rightarrow> error + manifest" where
  "hash fs hash20 pub file m =
     (case posix_join pub (Some file) of
        Inl e \<Rightarrow> Inl e
      | Inr p \<Rightarrow>
          (case file_version fs hash20 p of
             Inl e \<Rightarrow> Inl e
           | Inr h \<Rightarrow>
               Inr (let filePath = normalizePath pub file
                    in assign m filePath (filePath @ ''?id='' @ h))))"

text \<open>
  \<open>Array.prototype.sort\<close> with a comparison function, here the order \<open>le\<close> that
  \<open>localeCompare\<close> induces on the keys; the sort is stable.
\<close>

fun insert_by :: "('a \<Rightarrow> 'a \<Rightarrow> bool) \<Rightarrow> 'a \<Rightarrow> 'a list \<Rightarrow> 'a list" where
  "insert_by le x [] = [x]"
| "insert_by le x (y # ys) = (if le x y then x # y # ys else y # insert_by le x ys)"

definition sort_by :: "('a \<Rightarrow> 'a \<Rightarrow> bool) \<Rightarrow> 'a list \<Rightarrow> 'a list" where
  "sort_by le xs = foldr (insert_by le) xs []"

text \<open>
  \<open>Manifest.get\<close>. The argument is \<open>None\<close> when it is left out or \<open>null\<close>; \<open>if (file)\<close>
  is false for these and for the empty string, and then the whole mapping is returned
  with its keys sorted.
\<close>

datatype get_result = Path string | Entries "(string \<times> string) list"

definition manifest_get ::
  "(string \<Rightarrow> string \<Rightarrow> bool) \<Rightarrow> string \<Rightarrow> string option \<Rightarrow> manifest \<Rightarrow> error + get_result" where
  "manifest_get le pub file m =
     (case file of
        Some f \<Rightarrow>
          if f \<noteq> [] then
            (case posix_join pub (map_of m (normalizePath pub f)) of
               Inl e \<Rightarrow> Inl e
             | Inr p \<Rightarrow> Inr (Path p))
          else Inr (Entries (sort_by (\<lambda>a b. le (fst a) (fst b)) m))
      | None \<Rightarrow> Inr (Entries (sort_by (\<lambda>a b. le (fst a) (fst b)) m)))"

text \<open>
  A history of calls of \<open>add\<close> and \<open>hash\<close> on one manifest. A call of \<open>hash\<close> that
  throws has not yet written its entry. \<open>op_key\<close> is the key a call writes.
\<close>

datatype manifest_op = Add string | Hash string

fun apply_op ::
  "(string \<rightharpoonup> 'c) \<Rightarrow> ('c \<Rightarrow> string) \<Rightarrow> string \<Rightarrow> manifest_op \<Rightarrow> manifest \<Rightarrow> manifest" where
  "apply_op fs hash20 pub (Add q) m = add pub q m"
| "apply_op fs hash20 pub (Hash q) m =
     (case hash fs hash20 pub q m of Inl e \<Rightarrow> m | Inr m' \<Rightarrow> m')"

fun op_key :: "string \<Rightarrow> manifest_op \<Rightarrow> string" where
  "op_key pub (Add q) = strip_id (normalizePath pub q)"
| "op_key pub (Hash q) = normalizePath pub q"

section \<open>Auxiliary predicates\<close>

text \<open>
  The \<open>register\<close> hook of the component at \<open>c\<close> is absent, or returns (does not throw)
  when called with \<open>args\<close>.
\<close>

definition hook_returns :: "mix \<Rightarrow> nat \<Rightarrow> jsval list \<Rightarrow> bool" where
  "hook_returns m c args =
     (case hooks (heap m c) Register of None \<Rightarrow> True | Some f \<Rightarrow> f args = None)"

text \<open>The members of every component that the registrar only reads are the same in both states.\<close>

definition same_members :: "mix \<Rightarrow> mix \<Rightarrow> bool" where
  "same_members m m' =
     (\<forall>x. hooks (heap m' x) = hooks (heap m x) \<and> mix_keys (heap m' x) = mix_keys (heap m x)
        \<and> passive_flag (heap m' x) = passive_flag (heap m x)
        \<and> name_fn (heap m' x) = name_fn (heap m x)
        \<and> constructor_name (heap m' x) = constructor_name (heap m x))"

section \<open>Example inputs\<close>

text \<open>
  A passive component named \<open>sass\<close> that declares one dependency, a component of
  class \<open>Vue\<close> with a \<open>register\<close> and a \<open>boot\<close> hook, a component that names itself
  \<open>vue\<close> and \<open>vueLoader\<close>, a configuration callback that returns, and one that throws.
\<close>

definition sass_component :: component where
  "sass_component =
     blank_component\<lparr>name_fn := Some [''sass''], passive_flag := True,
       hooks := (\<lambda>h. if h = Dependencies then Some (\<lambda>_. None) else None),
       dependencies_result := [''sass-loader'']\<rparr>"

definition vue_component :: component where
  "vue_component =
     blank_component\<lparr>constructor_name := ''Vue'',
       hooks := (\<lambda>h. if h = Register \<or> h = Boot then Some (\<lambda>_. None) else None)\<rparr>"

definition vue_loader :: component where
  "vue_loader =
     blank_component\<lparr>name_fn := Some [''vue'', ''vueLoader''],
       hooks := (\<lambda>h. if h = Register then Some (\<lambda>_. None) else None)\<rparr>"

definition user_config :: "unit prog" where
  "user_config m = (Inr (), emit (Foreign ''mix config'') m)"

definition failing_config :: "unit prog" where
  "failing_config m = (Inl (Thrown ''boom''), emit (Foreign ''mix config'') m)"

text \<open>The comparison under which all keys are equal: the stable sort keeps the order.\<close>

definition keep_order :: "string \<Rightarrow> string \<Rightarrow> bool" where
  "keep_order a b = True"

definition group_A :: build_group where
  "group_A = \<lparr>group_id = 1, group_name = ''A''\<rparr>"

section \<open>Field lemmas\<close>

lemma trace_emit [simp]: "trace (emit e m) = trace m @ [e]"
  and current_emit [simp]: "current (emit e m) = current m"
  and groups_emit [simp]: "groups (emit e m) = groups m"
  and booted_emit [simp]: "booted (emit e m) = booted m"
  and initialized_emit [simp]: "initialized (emit e m) = initialized m"
  and heap_emit [simp]: "heap (emit e m) = heap m"
  and api_emit [simp]: "api (emit e m) = api m"
  and listeners_emit [simp]: "listeners (emit e m) = listeners m"
  and recorded_emit [simp]: "recorded (emit e m) = recorded m"
  and publicPath_emit [simp]: "publicPath (emit e m) = publicPath m"
  and next_ref_emit [simp]: "next_ref (emit e m) = next_ref m"
  by (simp_all add: emit_def)

lemma listen_fields [simp]:
  "trace (listen ev h m) = trace m"
  "current (listen ev h m) = current m"
  "groups (listen ev h m) = groups m"
  "booted (listen ev h m) = booted m"
  "initialized (listen ev h m) = initialized m"
  "heap (listen ev h m) = heap m"
  "api (listen ev h m) = api m"
  "listeners (listen ev h m) = listeners m @ [(ev, h)]"
  "recorded (listen ev h m) = recorded m"
  "publicPath (listen ev h m) = publicPath m"
  "next_ref (listen ev h m) = next_ref m"
  by (simp_all add: listen_def)

section \<open>Properties of the scope stack\<close>

lemma current_pushCurrent [simp]: "current (pushCurrent g m) = current m @ [g]"
  by (simp add: pushCurrent_def group_makeCurrent_def emit_def)

lemma currentGroup_pushCurrent [simp]: "currentGroup (pushCurrent g m) = Some g"
  by (simp add: currentGroup_def)

lemma popCurrent_root: "length (current m) = 1 \<Longrightarrow> popCurrent m = (Inr (), m)"
  by (simp add: popCurrent_def)

lemma popCurrent_ok:
  assumes "current m \<noteq> []"
  shows "fst (popCurrent m) = Inr ()"
    and "current (snd (popCurrent m)) \<noteq> []"
    and "hd (current (snd (popCurrent m))) = hd (current m)"
proof -
  obtain x xs where c: "current m = x # xs"
    using assms by (cases "current m") auto
  show "fst (popCurrent m) = Inr ()"
    by (cases xs rule: rev_cases)
      (simp_all add: popCurrent_def c currentGroup_def group_makeCurrent_def Let_def butlast_append)
  show "current (snd (popCurrent m)) \<noteq> []"
    by (cases xs rule: rev_cases)
      (simp_all add: popCurrent_def c currentGroup_def group_makeCurrent_def emit_def Let_def
        butlast_append)
  show "hd (current (snd (popCurrent m))) = hd (current m)"
    by (cases xs rule: rev_cases)
      (simp_all add: popCurrent_def c currentGroup_def group_makeCurrent_def emit_def Let_def
        butlast_append)
qed

lemma stack_ops_root:
  "current m \<noteq> [] \<Longrightarrow>
     fst (stack_ops ops m) = Inr () \<and> current (snd (stack_ops ops m)) \<noteq> []
     \<and> hd (current (snd (stack_ops ops m))) = hd (current m)"
proof (induction ops arbitrary: m)
  case Nil
  then show ?case by simp
next
  case (Cons op ops)
  show ?case
  proof (cases op)
    case (Push g)
    have "current (pushCurrent g m) \<noteq> []" by simp
    from Cons.IH [OF this] Cons.prems Push show ?thesis by simp
  next
    case Pop
    obtain r m' where p: "popCurrent m = (r, m')" by (cases "popCurrent m")
    from popCurrent_ok [OF Cons.prems] p
    have r: "r = Inr ()" and ne: "current m' \<noteq> []" and h: "hd (current m') = hd (current m)"
      by simp_all
    from Cons.IH [OF ne] h show ?thesis by (simp add: Pop p r)
  qed
qed

text \<open>
  C6. With only the root scope on the stack, \<open>popCurrent\<close> returns without any effect:
  the state (stack and effect log) is the same and \<open>currentGroup\<close> is still the root.
  From the state the constructor builds, every sequence of pushes and pops completes
  without error and leaves a non-empty stack whose bottom is the root scope, so
  \<open>currentGroup\<close> is always defined.
\<close>

theorem popCurrent_keeps_root:
  "(length (current m) = 1 \<longrightarrow>
      popCurrent m = (Inr (), m) \<and> currentGroup (snd (popCurrent m)) = Some (hd (current m)))
   \<and> fst (stack_ops ops (new_mix pub)) = Inr ()
   \<and> current (snd (stack_ops ops (new_mix pub))) \<noteq> []
   \<and> hd (current (snd (stack_ops ops (new_mix pub)))) = defaultGroup
   \<and> currentGroup (snd (stack_ops ops (new_mix pub))) \<noteq> None"
proof -
  have a: "length (current m) = 1 \<longrightarrow>
      popCurrent m = (Inr (), m) \<and> currentGroup (snd (popCurrent m)) = Some (hd (current m))"
  proof
    assume l: "length (current m) = 1"
    then obtain x where "current m = [x]"
      by (cases "current m") auto
    with l show "popCurrent m = (Inr (), m)
        \<and> currentGroup (snd (popCurrent m)) = Some (hd (current m))"
      by (simp add: popCurrent_def currentGroup_def)
  qed
  have ne: "current (new_mix pub) \<noteq> []" by (simp add: new_mix_def)
  have hd0: "hd (current (new_mix pub)) = defaultGroup" by (simp add: new_mix_def)
  from stack_ops_root [OF ne, of ops] hd0
  have b: "fst (stack_ops ops (new_mix pub)) = Inr ()
      \<and> current (snd (stack_ops ops (new_mix pub))) \<noteq> []
      \<and> hd (current (snd (stack_ops ops (new_mix pub)))) = defaultGroup
      \<and> currentGroup (snd (stack_ops ops (new_mix pub))) \<noteq> None"
    by (simp add: currentGroup_def)
  from a b show ?thesis by blast
qed

theorem popCurrent_keeps_root_witness:
  "length (current (new_mix '''')) = 1
   \<and> popCurrent (new_mix '''') = (Inr (), new_mix '''')
   \<and> currentGroup (snd (popCurrent (new_mix ''''))) = Some defaultGroup
   \<and> current (snd (stack_ops [Pop, Push \<lparr>group_id = 1, group_name = ''A''\<rparr>, Pop, Pop]
        (new_mix ''''))) = [defaultGroup]"
  using popCurrent_keeps_root [of "new_mix ''''" "[]" "''''"]
  by (simp add: new_mix_def popCurrent_def pushCurrent_def group_makeCurrent_def emit_def
      currentGroup_def defaultGroup_def Let_def)

section \<open>Properties of \<open>whileCurrent\<close> and \<open>dispatch\<close>\<close>

lemma popCurrent_pushed:
  assumes "current m = xs @ [g]" and "xs \<noteq> []"
  shows "popCurrent m =
     (Inr (), m\<lparr>current := xs, trace := trace m @ [MakeCurrent (group_id (last xs))]\<rparr>)"
  using assms
  by (simp add: popCurrent_def currentGroup_def group_makeCurrent_def emit_def Let_def)

lemma whileCurrent_balanced:
  assumes ne: "current m \<noteq> []"
    and bal: "current (snd (fn (pushCurrent g m))) = current (pushCurrent g m)"
  shows "whileCurrent g fn m =
     (fst (fn (pushCurrent g m)),
      (snd (fn (pushCurrent g m)))\<lparr>current := current m,
         trace := trace (snd (fn (pushCurrent g m))) @
           [MakeCurrent (group_id (last (current m)))]\<rparr>)"
proof -
  obtain r m2 where f: "fn (pushCurrent g m) = (r, m2)"
    by (cases "fn (pushCurrent g m)")
  from bal f have c: "current m2 = current m @ [g]" by simp
  show ?thesis
    by (simp add: whileCurrent_def f popCurrent_pushed [OF c ne])
qed

lemma call_hook_frame:
  assumes "call_hook c h a m = (r, m')"
  shows "current m' = current m \<and> initialized m' = initialized m \<and> heap m' = heap m"
  using assms by (auto simp: call_hook_def split: option.splits)

lemma applyBabelConfig_frame:
  assumes "applyBabelConfig c m = (r, m')"
  shows "current m' = current m \<and> initialized m' = initialized m \<and> heap m' = heap m"
  using assms
  by (auto simp: applyBabelConfig_def split: if_splits prod.splits sum.splits
      dest!: call_hook_frame)

lemma applyRules_frame:
  assumes "applyRules c m = (r, m')"
  shows "current m' = current m \<and> initialized m' = initialized m \<and> heap m' = heap m"
  using assms
  by (auto simp: applyRules_def split: if_splits prod.splits sum.splits
      dest!: call_hook_frame)

lemma applyPlugins_frame:
  assumes "applyPlugins c m = (r, m')"
  shows "current m' = current m \<and> initialized m' = initialized m \<and> heap m' = heap m"
  using assms
  by (auto simp: applyPlugins_def split: if_splits prod.splits sum.splits
      dest!: call_hook_frame)

lemma run_handler_frame:
  assumes "run_handler h d m = (r, m')"
  shows "current m' = current m" and "initialized m' = initialized m" and "heap m' = heap m"
proof -
  have "current m' = current m \<and> initialized m' = initialized m \<and> heap m' = heap m"
  proof (cases h)
    case (GatherDependencies c)
    with assms show ?thesis
      by (auto split: if_splits prod.splits sum.splits dest!: call_hook_frame)
  next
    case (InitComponent c)
    with assms show ?thesis
      by (auto split: if_splits prod.splits sum.splits
          dest!: call_hook_frame applyBabelConfig_frame)
  next
    case (LoadingEntry c)
    with assms show ?thesis by (auto dest!: call_hook_frame)
  next
    case (LoadingRules c)
    with assms show ?thesis by (auto dest!: applyRules_frame)
  next
    case (LoadingPlugins c)
    with assms show ?thesis by (auto dest!: applyPlugins_frame)
  next
    case (ConfigReady c)
    with assms show ?thesis by (auto dest!: call_hook_frame)
  next
    case HotRecordHandler
    with assms show ?thesis by auto
  qed
  then show "current m' = current m" and "initialized m' = initialized m"
    and "heap m' = heap m" by simp_all
qed

lemma run_handlers_frame:
  "run_handlers hs d m = (r, m') \<Longrightarrow>
     current m' = current m \<and> initialized m' = initialized m \<and> heap m' = heap m"
proof (induction hs arbitrary: m)
  case Nil
  then show ?case by simp
next
  case (Cons h hs)
  obtain r1 m1 where h: "run_handler h d m = (r1, m1)" by (cases "run_handler h d m")
  note f = run_handler_frame [OF h]
  show ?case
  proof (cases r1)
    case (Inl e)
    with Cons.prems h f show ?thesis by simp
  next
    case (Inr u)
    with Cons.prems h have "run_handlers hs d m1 = (r, m')" by simp
    from Cons.IH [OF this] f show ?thesis by simp
  qed
qed

lemma fire_frame:
  "current (snd (fire ev d m)) = current m" "initialized (snd (fire ev d m)) = initialized m"
  "heap (snd (fire ev d m)) = heap m"
  using run_handlers_frame [of "map snd (filter (\<lambda>p. fst p = ev) (listeners m))" d m]
  by (simp_all add: fire_def prod_eq_iff)

lemma dispatch_current:
  assumes "current m \<noteq> []"
  shows "current (snd (dispatch ev data m)) = current m"
proof -
  let ?fn = "\<lambda>s. case data of Val v \<Rightarrow> fire ev v s
    | Thunk v \<Rightarrow> fire ev v (emit (Foreign ''data'') s)"
  let ?g = "last (current m)"
  have bal: "current (snd (?fn (pushCurrent ?g m))) = current (pushCurrent ?g m)"
    by (cases data) (simp_all add: fire_frame)
  from assms show ?thesis
    by (simp add: dispatch_def currentGroup_def whileCurrent_balanced [of m ?fn ?g, OF assms bal])
qed

text \<open>
  C7. \<open>whileCurrent\<close> on a scope \<open>g\<close> with a function \<open>fn\<close> that leaves the scope stack
  as it found it: \<open>fn\<close> runs in a state where \<open>g\<close> is the current scope; whatever \<open>fn\<close>
  yields, a value or an exception, is the outcome of \<open>whileCurrent\<close>; afterwards the
  stack and the current scope are those from before the call, and the last effect is
  \<open>makeCurrent\<close> on the scope that was current before. \<open>Mix.dispatch\<close>, which fires an
  event inside \<open>whileCurrent\<close> of the current scope, leaves the stack unchanged as well.
\<close>

theorem whileCurrent_restores:
  assumes "current m \<noteq> []"
    and "current (snd (fn (pushCurrent g m))) = current (pushCurrent g m)"
  shows "currentGroup (pushCurrent g m) = Some g
    \<and> fst (whileCurrent g fn m) = fst (fn (pushCurrent g m))
    \<and> current (snd (whileCurrent g fn m)) = current m
    \<and> currentGroup (snd (whileCurrent g fn m)) = currentGroup m
    \<and> trace (snd (whileCurrent g fn m)) =
        trace (snd (fn (pushCurrent g m))) @ [MakeCurrent (group_id (last (current m)))]
    \<and> current (snd (dispatch ev data m)) = current m"
  using assms(1) dispatch_current [OF assms(1)]
  by (simp add: whileCurrent_balanced [of m fn g, OF assms] currentGroup_def)

theorem whileCurrent_restores_witness:
  "current (new_mix '''') \<noteq> []
   \<and> current (snd (failing_config (pushCurrent group_A (new_mix '''')))) =
       current (pushCurrent group_A (new_mix ''''))
   \<and> fst (whileCurrent group_A failing_config (new_mix '''')) = Inl (Thrown ''boom'')
   \<and> current (snd (whileCurrent group_A failing_config (new_mix ''''))) = [defaultGroup]
   \<and> trace (snd (whileCurrent group_A failing_config (new_mix ''''))) =
       [MakeCurrent 1, Foreign ''mix config'', MakeCurrent 0]
   \<and> fst (whileCurrent group_A user_config (new_mix '''')) = Inr ()
   \<and> current (snd (whileCurrent group_A user_config (new_mix ''''))) = [defaultGroup]
   \<and> trace (snd (whileCurrent group_A user_config (new_mix ''''))) =
       [MakeCurrent 1, Foreign ''mix config'', MakeCurrent 0]"
proof -
  have ne: "current (new_mix '''') \<noteq> []" by (simp add: new_mix_def)
  have bal: "current (snd (failing_config (pushCurrent group_A (new_mix '''')))) =
      current (pushCurrent group_A (new_mix ''''))"
    by (simp add: failing_config_def)
  have bal': "current (snd (user_config (pushCurrent group_A (new_mix '''')))) =
      current (pushCurrent group_A (new_mix ''''))"
    by (simp add: user_config_def)
  from whileCurrent_restores [of "new_mix ''''" failing_config group_A, OF ne bal]
  have f: "fst (whileCurrent group_A failing_config (new_mix '''')) = Inl (Thrown ''boom'')
      \<and> current (snd (whileCurrent group_A failing_config (new_mix ''''))) = [defaultGroup]
      \<and> trace (snd (whileCurrent group_A failing_config (new_mix ''''))) =
          [MakeCurrent 1, Foreign ''mix config'', MakeCurrent 0]"
    by (simp add: failing_config_def new_mix_def group_A_def defaultGroup_def
        pushCurrent_def group_makeCurrent_def emit_def)
  from whileCurrent_restores [of "new_mix ''''" user_config group_A, OF ne bal']
  have u: "fst (whileCurrent group_A user_config (new_mix '''')) = Inr ()
      \<and> current (snd (whileCurrent group_A user_config (new_mix ''''))) = [defaultGroup]
      \<and> trace (snd (whileCurrent group_A user_config (new_mix ''''))) =
          [MakeCurrent 1, Foreign ''mix config'', MakeCurrent 0]"
    by (simp add: user_config_def new_mix_def group_A_def defaultGroup_def
        pushCurrent_def group_makeCurrent_def emit_def)
  from ne bal f u show ?thesis by blast
qed

section \<open>Properties of the lifecycle phases\<close>

lemma boot_ok:
  assumes "\<not> booted m" and "groups m \<noteq> []"
  shows "boot laravel m =
     (Inr (), m\<lparr>booted := True,
        publicPath := (if laravel then ''public'' else publicPath m),
        listeners := listeners m @ [(''init'', HotRecordHandler)],
        trace := trace m @ [DotenvConfig, SetGlobals, MakeCurrent (group_id (hd (groups m)))]\<rparr>)"
proof -
  obtain g gs where g: "groups m = g # gs"
    using assms(2) by (cases "groups m") auto
  show ?thesis
    using assms(1)
    by (simp add: boot_def mix_makeCurrent_def group_makeCurrent_def emit_def listen_def g Let_def)
qed

lemma build_booted:
  "booted m \<Longrightarrow> build should config laravel m = (Inr (map config (filter should (groups m))), m)"
  by (simp add: build_def buildableGroups_def)

lemma build_unbooted:
  assumes "\<not> booted m" and "groups m \<noteq> []"
  shows "build should config laravel m =
     (Inr (map config (filter should (groups m))),
      m\<lparr>booted := True,
        publicPath := (if laravel then ''public'' else publicPath m),
        listeners := listeners m @ [(''init'', HotRecordHandler)],
        trace := trace m @ [Warn not_set_up, DotenvConfig, SetGlobals,
                   MakeCurrent (group_id (hd (groups m)))]\<rparr>)"
proof -
  have nb: "\<not> booted (emit (Warn not_set_up) m)" using assms(1) by simp
  have ng: "groups (emit (Warn not_set_up) m) \<noteq> []" using assms(2) by simp
  show ?thesis
    using assms(1)
    by (simp add: build_def boot_ok [OF nb ng] buildableGroups_def)
qed

lemma groups_addGroup [simp]:
  "groups (addGroup name m) = groups m @ [\<lparr>group_id = length (groups m), group_name = name\<rparr>]"
  by (simp add: addGroup_def)

lemma groups_fold_addGroup:
  "groups (fold addGroup names m) =
     groups m @ map (\<lambda>(i, n). \<lparr>group_id = i, group_name = n\<rparr>)
       (zip [length (groups m)..<length (groups m) + length names] names)"
proof (induction names arbitrary: m)
  case Nil
  then show ?case by simp
next
  case (Cons n ns)
  have "[length (groups m)..<length (groups m) + length (n # ns)] =
      length (groups m) # [Suc (length (groups m))..<Suc (length (groups m)) + length ns]"
    by (subst upt_conv_Cons) simp_all
  then show ?case by (simp add: Cons.IH)
qed

text \<open>
  C5. \<open>addGroup\<close> appends, so \<open>groups\<close> lists the root scope and then the declared
  scopes in declaration order. From a state that is booted or has at least the root
  scope, \<open>build\<close> resolves to the list that holds, in that order, the configuration of
  each group whose \<open>shouldBeBuilt\<close> is true and nothing for the others; the groups
  themselves are unchanged.
\<close>

theorem build_one_config_per_buildable_group:
  "(booted m \<or> groups m \<noteq> [] \<longrightarrow>
      fst (build should config laravel m) = Inr (map config (filter should (groups m)))
      \<and> groups (snd (build should config laravel m)) = groups m)
   \<and> groups (fold addGroup names m) =
       groups m @ map (\<lambda>(i, n). \<lparr>group_id = i, group_name = n\<rparr>)
         (zip [length (groups m)..<length (groups m) + length names] names)"
proof -
  have "fst (build should config laravel m) = Inr (map config (filter should (groups m)))
      \<and> groups (snd (build should config laravel m)) = groups m"
    if "booted m \<or> groups m \<noteq> []"
  proof (cases "booted m")
    case True
    then show ?thesis by (simp add: build_booted)
  next
    case False
    with that have "groups m \<noteq> []" by simp
    from build_unbooted [OF False this, of should config laravel] show ?thesis by simp
  qed
  with groups_fold_addGroup show ?thesis by blast
qed

theorem build_one_config_per_buildable_group_witness:
  "groups (fold addGroup [''A'', ''B''] (new_mix '''')) \<noteq> []
   \<and> groups (fold addGroup [''A'', ''B''] (new_mix '''')) =
       [defaultGroup, \<lparr>group_id = 1, group_name = ''A''\<rparr>, \<lparr>group_id = 2, group_name = ''B''\<rparr>]
   \<and> fst (build (\<lambda>g. group_name g = ''A'') group_name False
        (fold addGroup [''A'', ''B''] (new_mix ''''))) = Inr [''A'']"
  using build_one_config_per_buildable_group
    [of "fold addGroup [''A'', ''B''] (new_mix '''')" "\<lambda>g. group_name g = ''A''" group_name
      False "[]"]
  by (simp add: new_mix_def defaultGroup_def)

text \<open>
  C9. \<open>build\<close> on a state that is not booted (and has its root scope): the warning is
  the first effect, then come the effects of \<open>boot\<close> (environment file, the \<open>init\<close>
  listener for hot reloading, globals, root scope made current), \<open>booted\<close> is set, and
  the call resolves to the configurations of the buildable groups. On a booted state
  \<open>build\<close> resolves to the same list and changes nothing: no warning and no effect of
  \<open>boot\<close>; \<open>boot\<close> itself returns at once there.
\<close>

theorem build_boots_lazily:
  "(\<not> booted m \<and> groups m \<noteq> [] \<longrightarrow>
      build should config laravel m =
        (Inr (map config (filter should (groups m))),
         m\<lparr>booted := True,
           publicPath := (if laravel then ''public'' else publicPath m),
           listeners := listeners m @ [(''init'', HotRecordHandler)],
           trace := trace m @ [Warn not_set_up, DotenvConfig, SetGlobals,
                      MakeCurrent (group_id (hd (groups m)))]\<rparr>))
   \<and> (booted m \<longrightarrow>
        build should config laravel m = (Inr (map config (filter should (groups m))), m)
        \<and> boot laravel m = (Inr (), m))"
  using build_unbooted [of m should config laravel] build_booted [of m should config laravel]
  by (simp add: boot_def)

theorem build_boots_lazily_witness:
  "\<not> booted (new_mix '''') \<and> groups (new_mix '''') \<noteq> []
   \<and> fst (build (\<lambda>g. True) group_name False (new_mix '''')) = Inr [''Mix'']
   \<and> trace (snd (build (\<lambda>g. True) group_name False (new_mix ''''))) =
       [Warn not_set_up, DotenvConfig, SetGlobals, MakeCurrent 0]
   \<and> booted (snd (build (\<lambda>g. True) group_name False (new_mix '''')))
   \<and> build (\<lambda>g. True) group_name False (snd (build (\<lambda>g. True) group_name False (new_mix ''''))) =
       (Inr [''Mix''], snd (build (\<lambda>g. True) group_name False (new_mix '''')))"
proof -
  let ?m1 = "snd (build (\<lambda>g. True) group_name False (new_mix ''''))"
  have a: "\<not> booted (new_mix '''') \<and> groups (new_mix '''') \<noteq> []"
    by (simp add: new_mix_def)
  from build_boots_lazily [of "new_mix ''''" "\<lambda>g. True" group_name False] a
  have b: "build (\<lambda>g. True) group_name False (new_mix '''') =
      (Inr [''Mix''],
       (new_mix '''')\<lparr>booted := True, publicPath := '''',
          listeners := [(''init'', HotRecordHandler)],
          trace := [Warn not_set_up, DotenvConfig, SetGlobals, MakeCurrent 0]\<rparr>)"
    by (simp add: new_mix_def defaultGroup_def)
  then have c: "booted ?m1" and g: "groups ?m1 = [defaultGroup]"
    by (simp_all add: new_mix_def)
  from build_boots_lazily [of ?m1 "\<lambda>g. True" group_name False] c g
  have "build (\<lambda>g. True) group_name False ?m1 = (Inr [''Mix''], ?m1)"
    by (simp add: defaultGroup_def)
  with a b show ?thesis by simp
qed

lemma popCurrent_initialized: "initialized (snd (popCurrent m)) = initialized m"
  by (simp add: popCurrent_def currentGroup_def group_makeCurrent_def emit_def Let_def)

lemma pushCurrent_initialized [simp]: "initialized (pushCurrent g m) = initialized m"
  by (simp add: pushCurrent_def group_makeCurrent_def emit_def)

lemma whileCurrent_initialized:
  "initialized (snd (whileCurrent g fn m)) = initialized (snd (fn (pushCurrent g m)))"
proof -
  obtain r m2 where f: "fn (pushCurrent g m) = (r, m2)" by (cases "fn (pushCurrent g m)")
  obtain r3 m3 where p: "popCurrent m2 = (r3, m3)" by (cases "popCurrent m2")
  from popCurrent_initialized [of m2] p have "initialized m3 = initialized m2" by simp
  then show ?thesis
    by (cases r3) (simp_all add: whileCurrent_def f p)
qed

lemma dispatch_initialized: "initialized (snd (dispatch ev data m)) = initialized m"
  by (cases data)
    (simp_all add: dispatch_def whileCurrent_initialized fire_frame split: option.splits)

lemmas model_defs =
  install_def allocate_def registerComponent_def component_names_def register_name_def
  invoke_def composite_def call_hook_def set_caller_def set_activated_def
  components_record_def emit_def listen_def Let_def installDependencies_def init_def load_def
  dispatch_def currentGroup_def whileCurrent_def pushCurrent_def popCurrent_def fire_def
  group_makeCurrent_def defaultGroup_def new_mix_def blank_component_def applyBabelConfig_def
  lower_def

text \<open>
  C2, as amended. Only \<open>init\<close> is guarded: on an initialized state it returns at once
  with the state unchanged; otherwise it sets \<open>initialized\<close> before it dispatches the
  \<open>init\<close> event, so that after any call of \<open>init\<close>, failed or not, the flag is set and a
  second call changes nothing and raises nothing.
\<close>

theorem init_runs_once:
  "(initialized m \<longrightarrow> init m = (Inr (), m))
   \<and> (\<not> initialized m \<longrightarrow> init m = dispatch ''init'' (Val JMix) (m\<lparr>initialized := True\<rparr>))
   \<and> initialized (snd (init m))
   \<and> init (snd (init m)) = (Inr (), snd (init m))"
proof -
  have i: "initialized (snd (init m))"
    by (simp add: init_def dispatch_initialized)
  then have "init (snd (init m)) = (Inr (), snd (init m))"
    by (simp add: init_def)
  with i show ?thesis by (simp add: init_def)
qed

theorem init_runs_once_witness:
  "\<not> initialized (snd (invoke ''vue'' [] (snd (install (PlainClass vue_component) (new_mix '''')))))
   \<and> trace (snd (init (snd (invoke ''vue'' [] (snd (install (PlainClass vue_component)
        (new_mix ''''))))))) =
       [Recorded ''vue'' 0, CallerSet 0 ''vue'', HookCalled 0 Register [], ActivatedSet 0,
        MakeCurrent 0, HookCalled 0 Boot [], MakeCurrent 0]
   \<and> init (snd (init (snd (invoke ''vue'' [] (snd (install (PlainClass vue_component)
        (new_mix ''''))))))) =
       (Inr (), snd (init (snd (invoke ''vue'' [] (snd (install (PlainClass vue_component)
        (new_mix '''')))))))"
proof -
  let ?m = "snd (invoke ''vue'' [] (snd (install (PlainClass vue_component) (new_mix ''''))))"
  have a: "\<not> initialized ?m"
    by (simp add: model_defs vue_component_def)
  have b: "trace (snd (dispatch ''init'' (Val JMix) (?m\<lparr>initialized := True\<rparr>))) =
       [Recorded ''vue'' 0, CallerSet 0 ''vue'', HookCalled 0 Register [], ActivatedSet 0,
        MakeCurrent 0, HookCalled 0 Boot [], MakeCurrent 0]"
    by (simp add: model_defs vue_component_def)
  note r = init_runs_once [of ?m]
  from r have c: "init (snd (init ?m)) = (Inr (), snd (init ?m))" by blast
  from r a have e: "init ?m = dispatch ''init'' (Val JMix) (?m\<lparr>initialized := True\<rparr>)"
    by blast
  from b have t: "trace (snd (init ?m)) =
       [Recorded ''vue'' 0, CallerSet 0 ''vue'', HookCalled 0 Register [], ActivatedSet 0,
        MakeCurrent 0, HookCalled 0 Boot [], MakeCurrent 0]"
    by (simp only: e)
  from a t c show ?thesis by blast
qed

text \<open>
  \<open>load\<close> and \<open>installDependencies\<close> have no such guard. A second \<open>load\<close> of a
  configuration whose default export is a function calls that function again; a second
  \<open>installDependencies\<close> fires the dependency event again, so that the passive
  component's \<open>dependencies\<close> hook is called and queued a second time, and runs the
  installer again. Neither raises an error.
\<close>

theorem load_and_installDependencies_rerun:
  "trace (snd (load (Some user_config) (new_mix ''''))) =
     [Import, MakeCurrent 0, Foreign ''mix config'', MakeCurrent 0]
   \<and> load (Some user_config) (snd (load (Some user_config) (new_mix ''''))) \<noteq>
       (Inr (), snd (load (Some user_config) (new_mix '''')))
   \<and> trace (snd (load (Some user_config) (snd (load (Some user_config) (new_mix ''''))))) =
       [Import, MakeCurrent 0, Foreign ''mix config'', MakeCurrent 0,
        Import, MakeCurrent 0, Foreign ''mix config'', MakeCurrent 0]
   \<and> trace (snd (installDependencies (snd (install (PlainClass sass_component)
        (new_mix ''''))))) =
       [Recorded ''sass'' 0, CallerSet 0 ''sass'', ActivatedSet 0,
        MakeCurrent 0, HookCalled 0 Dependencies [], Queue [''sass-loader''] False,
        MakeCurrent 0, InstallQueued]
   \<and> installDependencies (snd (installDependencies (snd (install (PlainClass sass_component)
        (new_mix ''''))))) \<noteq>
       (Inr (), snd (installDependencies (snd (install (PlainClass sass_component)
        (new_mix '''')))))
   \<and> trace (snd (installDependencies (snd (installDependencies (snd (install
        (PlainClass sass_component) (new_mix ''''))))))) =
       [Recorded ''sass'' 0, CallerSet 0 ''sass'', ActivatedSet 0,
        MakeCurrent 0, HookCalled 0 Dependencies [], Queue [''sass-loader''] False,
        MakeCurrent 0, InstallQueued,
        MakeCurrent 0, HookCalled 0 Dependencies [], Queue [''sass-loader''] False,
        MakeCurrent 0, InstallQueued]"
proof -
  let ?l1 = "snd (load (Some user_config) (new_mix ''''))"
  let ?d0 = "snd (install (PlainClass sass_component) (new_mix ''''))"
  let ?d1 = "snd (installDependencies ?d0)"
  have l1: "trace ?l1 = [Import, MakeCurrent 0, Foreign ''mix config'', MakeCurrent 0]"
    by (simp add: model_defs user_config_def)
  have l2: "trace (snd (load (Some user_config) ?l1)) =
       [Import, MakeCurrent 0, Foreign ''mix config'', MakeCurrent 0,
        Import, MakeCurrent 0, Foreign ''mix config'', MakeCurrent 0]"
    by (simp add: model_defs user_config_def)
  have d1: "trace ?d1 =
       [Recorded ''sass'' 0, CallerSet 0 ''sass'', ActivatedSet 0,
        MakeCurrent 0, HookCalled 0 Dependencies [], Queue [''sass-loader''] False,
        MakeCurrent 0, InstallQueued]"
    by (simp add: model_defs sass_component_def)
  have d2: "trace (snd (installDependencies ?d1)) =
       [Recorded ''sass'' 0, CallerSet 0 ''sass'', ActivatedSet 0,
        MakeCurrent 0, HookCalled 0 Dependencies [], Queue [''sass-loader''] False,
        MakeCurrent 0, InstallQueued,
        MakeCurrent 0, HookCalled 0 Dependencies [], Queue [''sass-loader''] False,
        MakeCurrent 0, InstallQueued]"
    by (simp add: model_defs sass_component_def)
  have l3: "load (Some user_config) ?l1 \<noteq> (Inr (), ?l1)"
  proof
    assume "load (Some user_config) ?l1 = (Inr (), ?l1)"
    then have "trace (snd (load (Some user_config) ?l1)) = trace ?l1" by simp
    with l1 l2 show False by simp
  qed
  have d3: "installDependencies ?d1 \<noteq> (Inr (), ?d1)"
  proof
    assume "installDependencies ?d1 = (Inr (), ?d1)"
    then have "trace (snd (installDependencies ?d1)) = trace ?d1" by simp
    with d1 d2 show False by simp
  qed
  from l1 l2 l3 d1 d2 d3 show ?thesis by blast
qed

section \<open>Properties of the registrar\<close>


lemma composite_returns:
  assumes "hook_returns m c args"
  shows "composite c name args m =
     (Inr RetApi,
      m\<lparr>recorded := (recorded m)(name \<mapsto> c),
        heap := (heap m)(c := (heap m c)\<lparr>caller := Some name, activated := True\<rparr>),
        trace := trace m @ [Recorded name c, CallerSet c name] @
          (case hooks (heap m c) Register of None \<Rightarrow> [] | Some f \<Rightarrow> [HookCalled c Register args])
          @ [ActivatedSet c]\<rparr>)"
  using assms
  by (auto simp: hook_returns_def composite_def call_hook_def set_caller_def set_activated_def
      components_record_def emit_def split: option.splits)

lemma composite_effects:
  "trace (snd (composite c name args m)) =
     trace m @ [Recorded name c, CallerSet c name] @
       (case hooks (heap m c) Register of None \<Rightarrow> [] | Some f \<Rightarrow> [HookCalled c Register args])
       @ (if hook_returns m c args then [ActivatedSet c] else [])
   \<and> recorded (snd (composite c name args m)) name = Some c
   \<and> caller (heap (snd (composite c name args m)) c) = Some name"
  by (auto simp: hook_returns_def composite_def call_hook_def set_caller_def set_activated_def
      components_record_def emit_def split: option.splits)

lemma composite_throws:
  assumes "hooks (heap m c) Register = Some f" and "f args = Some e"
  shows "composite c name args m =
     (Inl e,
      m\<lparr>recorded := (recorded m)(name \<mapsto> c),
        heap := (heap m)(c := (heap m c)\<lparr>caller := Some name\<rparr>),
        trace := trace m @ [Recorded name c, CallerSet c name, HookCalled c Register args]\<rparr>)"
  using assms
  by (simp add: composite_def call_hook_def set_caller_def set_activated_def
      components_record_def emit_def)

lemma same_members_refl [simp]: "same_members m m"
  by (simp add: same_members_def)

lemma same_members_trans: "same_members m m1 \<Longrightarrow> same_members m1 m2 \<Longrightarrow> same_members m m2"
  by (simp add: same_members_def)

lemma composite_frame:
  assumes "composite c name args m = (r, m')"
  shows "api m' = api m \<and> same_members m m' \<and> listeners m' = listeners m"
  using assms
  by (auto simp: composite_def call_hook_def set_caller_def set_activated_def
      components_record_def emit_def same_members_def split: option.splits if_splits)

text \<open>
  C1. Let the API surface hold, under \<open>name\<close>, the composite method generated for the
  component \<open>c\<close> and that alias. A call with any arguments has these effects, in this
  order: the component is recorded under the alias, its \<open>caller\<close> is set to the alias,
  the \<open>register\<close> hook (if there is one, nothing otherwise) is called with exactly the
  arguments of the call, and, the hook being absent or having returned, \<open>activated\<close> is
  set; the call then returns the API surface. Afterwards the registry maps the alias to
  the component, \<open>caller\<close> is the alias and \<open>activated\<close> is true.
\<close>

theorem composite_method_steps:
  assumes "api m name = Some (Composite c name)"
  shows "trace (snd (invoke name args m)) =
        trace m @ [Recorded name c, CallerSet c name] @
          (case hooks (heap m c) Register of
             None \<Rightarrow> []
           | Some f \<Rightarrow> [HookCalled c Register args])
          @ (if hook_returns m c args then [ActivatedSet c] else [])
    \<and> recorded (snd (invoke name args m)) name = Some c
    \<and> caller (heap (snd (invoke name args m)) c) = Some name
    \<and> api (snd (invoke name args m)) = api m
    \<and> (hook_returns m c args \<longrightarrow>
         fst (invoke name args m) = Inr RetApi
         \<and> activated (heap (snd (invoke name args m)) c))"
proof -
  have i: "invoke name args m = composite c name args m"
    by (simp add: invoke_def assms)
  obtain r m' where e: "composite c name args m = (r, m')"
    by (cases "composite c name args m")
  from composite_frame [OF e] have a: "api (snd (invoke name args m)) = api m"
    by (simp add: i e)
  have h: "fst (invoke name args m) = Inr RetApi \<and> activated (heap (snd (invoke name args m)) c)"
    if "hook_returns m c args"
    by (simp add: i composite_returns [OF that])
  from composite_effects [of c name args m] a h show ?thesis
    by (simp add: i)
qed

theorem composite_method_steps_witness:
  "api (snd (install (PlainClass vue_component) (new_mix ''''))) ''vue'' = Some (Composite 0 ''vue'')
   \<and> hook_returns (snd (install (PlainClass vue_component) (new_mix ''''))) 0 [JStr ''src/app.js'']
   \<and> fst (invoke ''vue'' [JStr ''src/app.js'']
        (snd (install (PlainClass vue_component) (new_mix '''')))) = Inr RetApi
   \<and> trace (snd (invoke ''vue'' [JStr ''src/app.js'']
        (snd (install (PlainClass vue_component) (new_mix ''''))))) =
       [Recorded ''vue'' 0, CallerSet 0 ''vue'', HookCalled 0 Register [JStr ''src/app.js''],
        ActivatedSet 0]
   \<and> activated (heap (snd (invoke ''vue'' [JStr ''src/app.js'']
        (snd (install (PlainClass vue_component) (new_mix ''''))))) 0)"
proof -
  let ?m = "snd (install (PlainClass vue_component) (new_mix ''''))"
  have a: "api ?m ''vue'' = Some (Composite 0 ''vue'')"
    by (simp add: model_defs vue_component_def)
  have h: "hook_returns ?m 0 [JStr ''src/app.js'']"
    by (simp add: hook_returns_def model_defs vue_component_def)
  have t: "trace ?m = []" and k: "hooks (heap ?m 0) Register = Some (\<lambda>_. None)"
    by (simp_all add: model_defs vue_component_def)
  from composite_method_steps [OF a, of "[JStr ''src/app.js'']"] a h t k show ?thesis by simp
qed

lemma fold_extra_other:
  "a \<notin> set ks \<Longrightarrow> fold (\<lambda>k f. f(k \<mapsto> Extra c k)) ks A a = A a"
  by (induction ks arbitrary: A) auto

lemma register_name_frame:
  assumes "register_name c n m = (r, m')"
  shows "same_members m m'"
  using assms
  by (auto simp: register_name_def invoke_def Let_def same_members_def
      split: if_splits prod.splits sum.splits option.splits dest!: composite_frame)

lemma register_name_api:
  assumes "register_name c n m = (Inr u, m')"
    and "case mix_keys (heap m c) of None \<Rightarrow> True | Some ks \<Rightarrow> a \<notin> set ks"
  shows "api m' a = (if a = n then Some (Composite c n) else api m a)"
  using assms
  by (auto simp: register_name_def invoke_def Let_def same_members_def fold_extra_other
      split: if_splits prod.splits sum.splits option.splits dest!: composite_frame)

lemma hook_returns_same: "same_members m m' \<Longrightarrow> hook_returns m' c args = hook_returns m c args"
  by (simp add: hook_returns_def same_members_def)

lemma register_all_frame:
  "register_all c ns m = (r, m') \<Longrightarrow> same_members m m'"
proof (induction ns arbitrary: m)
  case Nil
  then show ?case by simp
next
  case (Cons n ns)
  obtain r1 m1 where h: "register_name c n m = (r1, m1)" by (cases "register_name c n m")
  note f = register_name_frame [OF h]
  show ?case
  proof (cases r1)
    case (Inl e)
    with Cons.prems h f show ?thesis by simp
  next
    case (Inr u)
    with Cons.prems h have "register_all c ns m1 = (r, m')" by simp
    from Cons.IH [OF this] f show ?thesis by (rule same_members_trans [rotated])
  qed
qed

lemma register_all_api_other:
  assumes "register_all c ns m = (Inr u, m')"
    and "a \<notin> set ns"
    and "case mix_keys (heap m c) of None \<Rightarrow> True | Some ks \<Rightarrow> a \<notin> set ks"
  shows "api m' a = api m a"
  using assms
proof (induction ns arbitrary: m)
  case Nil
  then show ?case by simp
next
  case (Cons n ns)
  obtain r1 m1 where h: "register_name c n m = (r1, m1)" by (cases "register_name c n m")
  with Cons.prems(1) obtain u1 where r1: "r1 = Inr u1" and rest: "register_all c ns m1 = (Inr u, m')"
    by (cases r1) simp_all
  from register_name_frame [OF h]
  have k: "mix_keys (heap m1 c) = mix_keys (heap m c)" by (simp add: same_members_def)
  from Cons.prems(2) have "a \<noteq> n" and "a \<notin> set ns" by simp_all
  with register_name_api [OF h [unfolded r1] Cons.prems(3)] Cons.IH [OF rest] Cons.prems(3) k
  show ?case by simp
qed

lemma register_all_api:
  assumes "register_all c ns m = (Inr u, m')"
    and "a \<in> set ns"
    and "case mix_keys (heap m c) of None \<Rightarrow> True | Some ks \<Rightarrow> a \<notin> set ks"
  shows "api m' a = Some (Composite c a)"
  using assms
proof (induction ns arbitrary: m)
  case Nil
  then show ?case by simp
next
  case (Cons n ns)
  obtain r1 m1 where h: "register_name c n m = (r1, m1)" by (cases "register_name c n m")
  with Cons.prems(1) obtain u1 where r1: "r1 = Inr u1" and rest: "register_all c ns m1 = (Inr u, m')"
    by (cases r1) simp_all
  from register_name_frame [OF h]
  have k: "mix_keys (heap m1 c) = mix_keys (heap m c)" by (simp add: same_members_def)
  note here = register_name_api [OF h [unfolded r1] Cons.prems(3)]
  show ?case
  proof (cases "a \<in> set ns")
    case True
    from Cons.IH [OF rest True] Cons.prems(3) k show ?thesis by simp
  next
    case False
    with Cons.prems(2) have "a = n" by simp
    with register_all_api_other [OF rest False] Cons.prems(3) k here show ?thesis by simp
  qed
qed

lemma register_name_ok:
  assumes "passive_flag (heap m c) \<longrightarrow> hook_returns m c []"
  shows "fst (register_name c n m) = Inr ()"
proof (cases "passive_flag (heap m c)")
  case True
  with assms have "hook_returns (m\<lparr>api := (api m)(n \<mapsto> Composite c n)\<rparr>) c []"
    by (simp add: hook_returns_def)
  from composite_returns [OF this] True show ?thesis
    by (simp add: register_name_def invoke_def Let_def split: option.splits)
next
  case False
  then show ?thesis
    by (simp add: register_name_def Let_def split: option.splits)
qed

lemma register_all_ok:
  assumes "passive_flag (heap m c) \<longrightarrow> hook_returns m c []"
  shows "fst (register_all c ns m) = Inr ()"
  using assms
proof (induction ns arbitrary: m)
  case Nil
  then show ?case by simp
next
  case (Cons n ns)
  obtain r1 m1 where h: "register_name c n m = (r1, m1)" by (cases "register_name c n m")
  from register_name_ok [OF Cons.prems, of n] h have r1: "r1 = Inr ()" by simp
  from register_name_frame [OF h] Cons.prems
  have "passive_flag (heap m1 c) \<longrightarrow> hook_returns m1 c []"
    by (simp add: hook_returns_same) (simp add: same_members_def)
  from Cons.IH [OF this] h r1 show ?case by simp
qed

lemma composite_heap:
  assumes "composite c name args m = (r, m')"
  shows "(\<forall>x. x \<noteq> c \<longrightarrow> heap m' x = heap m x) \<and> (activated (heap m c) \<longrightarrow> activated (heap m' c))"
  using assms
  by (auto simp: composite_def call_hook_def set_caller_def set_activated_def
      components_record_def emit_def split: option.splits if_splits)

lemma register_name_heap:
  assumes "register_name c n m = (r, m')"
  shows "(\<forall>x. x \<noteq> c \<longrightarrow> heap m' x = heap m x) \<and> (activated (heap m c) \<longrightarrow> activated (heap m' c))"
  using assms
  by (auto simp: register_name_def invoke_def Let_def
      split: if_splits prod.splits sum.splits option.splits dest!: composite_heap)

lemma register_all_heap:
  "register_all c ns m = (r, m') \<Longrightarrow>
     (\<forall>x. x \<noteq> c \<longrightarrow> heap m' x = heap m x) \<and> (activated (heap m c) \<longrightarrow> activated (heap m' c))"
proof (induction ns arbitrary: m)
  case Nil
  then show ?case by simp
next
  case (Cons n ns)
  obtain r1 m1 where h: "register_name c n m = (r1, m1)" by (cases "register_name c n m")
  note f = register_name_heap [OF h]
  show ?case
  proof (cases r1)
    case (Inl e)
    with Cons.prems h f show ?thesis by simp
  next
    case (Inr u)
    with Cons.prems h have "register_all c ns m1 = (r, m')" by simp
    from Cons.IH [OF this] f show ?thesis by simp
  qed
qed

lemma register_name_passive:
  assumes "register_name c n m = (Inr u, m')" and "passive_flag (heap m c)"
  shows "activated (heap m' c)"
  using assms
  by (auto simp: register_name_def invoke_def Let_def composite_def call_hook_def
      set_caller_def set_activated_def components_record_def emit_def
      split: if_splits prod.splits sum.splits option.splits)

lemma register_all_passive:
  assumes "register_all c ns m = (Inr u, m')" and "passive_flag (heap m c)" and "ns \<noteq> []"
  shows "activated (heap m' c)"
proof -
  from assms(3) obtain n ns' where ns: "ns = n # ns'" by (cases ns) auto
  obtain r1 m1 where h: "register_name c n m = (r1, m1)" by (cases "register_name c n m")
  with assms(1) ns obtain u1 where r1: "r1 = Inr u1" and rest: "register_all c ns' m1 = (Inr u, m')"
    by (cases r1) simp_all
  from register_name_passive [OF h [unfolded r1] assms(2)] have "activated (heap m1 c)" .
  with register_all_heap [OF rest] show ?thesis by simp
qed

lemma register_name_not_passive:
  assumes "\<not> passive_flag (heap m c)"
  shows "fst (register_name c n m) = Inr ()"
    and "heap (snd (register_name c n m)) = heap m"
    and "trace (snd (register_name c n m)) = trace m"
  using assms by (simp_all add: register_name_def Let_def split: option.splits)

lemma register_all_not_passive:
  assumes "\<not> passive_flag (heap m c)"
  shows "fst (register_all c ns m) = Inr () \<and> heap (snd (register_all c ns m)) = heap m
    \<and> trace (snd (register_all c ns m)) = trace m"
  using assms
proof (induction ns arbitrary: m)
  case Nil
  then show ?case by simp
next
  case (Cons n ns)
  obtain r1 m1 where h: "register_name c n m = (r1, m1)" by (cases "register_name c n m")
  from register_name_not_passive [OF Cons.prems, of n] h
  have r1: "r1 = Inr ()" and hp: "heap m1 = heap m" and tr: "trace m1 = trace m" by simp_all
  from Cons.prems hp have "\<not> passive_flag (heap m1 c)" by simp
  from Cons.IH [OF this] h r1 hp tr show ?case by simp
qed

lemma install_result:
  assumes "instantiate d m = (c, m1)"
  shows "install d m =
     (case register_all c (component_names (heap m1 c)) m1 of
        (Inl e, m2) \<Rightarrow> (Inl e, m2)
      | (Inr _, m2) \<Rightarrow>
          (Inr RetApi,
           listen ''init'' (InitComponent c)
             (listen ''internal:gather-dependencies'' (GatherDependencies c) m2)))"
  using assms by (simp add: install_def registerComponent_def)

lemma instantiate_trace: "instantiate d m = (c, m1) \<Longrightarrow> trace m1 = trace m"
  by (cases d) (auto simp: allocate_def)

lemma instantiate_heap_other: "instantiate d m = (c, m1) \<Longrightarrow> x \<noteq> c \<Longrightarrow> heap m1 x = heap m x"
  by (cases d) (auto simp: allocate_def)

lemma install_passive:
  assumes i: "instantiate d m = (c, m1)"
    and p: "passive_flag (heap m1 c)"
    and n: "component_names (heap m1 c) \<noteq> []"
    and h: "hook_returns m1 c []"
  shows "fst (install d m) = Inr RetApi \<and> activated (heap (snd (install d m)) c)"
proof -
  let ?ns = "component_names (heap m1 c)"
  obtain r m2 where ra: "register_all c ?ns m1 = (r, m2)" by (cases "register_all c ?ns m1")
  from register_all_ok [of m1 c ?ns] h ra have r: "r = Inr ()" by simp
  from register_all_passive [OF ra [unfolded r] p n] have "activated (heap m2 c)" .
  then show ?thesis by (simp add: install_result [OF i] ra r)
qed

lemma install_passive_completed:
  assumes i: "instantiate d m = (c, m1)"
    and p: "passive_flag (heap m1 c)"
    and n: "component_names (heap m1 c) \<noteq> []"
    and ok: "fst (install d m) = Inr RetApi"
  shows "activated (heap (snd (install d m)) c)"
proof -
  let ?ns = "component_names (heap m1 c)"
  obtain r m2 where ra: "register_all c ?ns m1 = (r, m2)" by (cases "register_all c ?ns m1")
  from ok ra obtain u where r: "r = Inr u"
    by (cases r) (simp_all add: install_result [OF i])
  from register_all_passive [OF ra [unfolded r] p n] have "activated (heap m2 c)" .
  then show ?thesis by (simp add: install_result [OF i] ra r)
qed

lemma install_not_passive:
  assumes i: "instantiate d m = (c, m1)"
    and p: "\<not> passive_flag (heap m1 c)"
  shows "fst (install d m) = Inr RetApi \<and> heap (snd (install d m)) = heap m1
    \<and> trace (snd (install d m)) = trace m"
proof -
  let ?ns = "component_names (heap m1 c)"
  obtain r m2 where ra: "register_all c ?ns m1 = (r, m2)" by (cases "register_all c ?ns m1")
  from register_all_not_passive [OF p, of ?ns] ra
  have "r = Inr ()" and "heap m2 = heap m1" and "trace m2 = trace m1" by simp_all
  then show ?thesis by (simp add: install_result [OF i] ra instantiate_trace [OF i])
qed

lemma install_heap_other:
  assumes i: "instantiate d m = (c, m1)" and x: "x \<noteq> c"
  shows "heap (snd (install d m)) x = heap m x"
proof -
  let ?ns = "component_names (heap m1 c)"
  obtain r m2 where ra: "register_all c ?ns m1 = (r, m2)" by (cases "register_all c ?ns m1")
  from register_all_heap [OF ra] x have "heap m2 x = heap m1 x" by simp
  with instantiate_heap_other [OF i x] show ?thesis
    by (cases r) (simp_all add: install_result [OF i] ra)
qed

lemma register_name_extra_overrides:
  assumes "\<not> passive_flag (heap m c)" and "mix_keys (heap m c) = Some ks" and "name \<in> set ks"
  shows "api (snd (register_name c name m)) name = Some (Extra c name)"
proof -
  have "fold (\<lambda>k f. f(k \<mapsto> Extra c k)) ks A name = Some (Extra c name)" if "name \<in> set ks"
    for A
    using that
  proof (induction ks arbitrary: A)
    case Nil
    then show ?case by simp
  next
    case (Cons k ks)
    show ?case
    proof (cases "name \<in> set ks")
      case True
      from Cons.IH [OF True] show ?thesis by (simp only: fold_simps)
    next
      case False
      with Cons.prems have n: "name = k" by simp
      from False n have "name \<notin> set ks" by simp
      from fold_extra_other [OF this, of c "A(k \<mapsto> Extra c k)"] n
      show ?thesis by (simp only: fold_simps) simp
    qed
  qed
  with assms show ?thesis by (simp add: register_name_def Let_def)
qed

lemma install_without_alias:
  assumes "instantiate d m = (c, m1)" and "component_names (heap m1 c) = []"
  shows "fst (install d m) = Inr RetApi" and "heap (snd (install d m)) = heap m1"
  using assms by (simp_all add: install_result)

lemma fold_extra_cases:
  "fold (\<lambda>k f. f(k \<mapsto> Extra c k)) ks A a = Some v \<Longrightarrow> v = Extra c a \<or> A a = Some v"
proof (induction ks arbitrary: A)
  case Nil
  then show ?case by simp
next
  case (Cons k ks)
  from Cons.prems have "fold (\<lambda>k f. f(k \<mapsto> Extra c k)) ks (A(k \<mapsto> Extra c k)) a = Some v"
    by (simp only: fold_simps)
  from Cons.IH [OF this] show ?case by (auto split: if_splits)
qed

lemma register_name_own_alias:
  assumes "register_name c n m = (r, m')"
    and "\<forall>k c' n'. api m k = Some (Composite c' n') \<longrightarrow> n' = k"
  shows "\<forall>k c' n'. api m' k = Some (Composite c' n') \<longrightarrow> n' = k"
  using assms
  by (auto simp: register_name_def invoke_def Let_def
      split: if_splits prod.splits sum.splits option.splits
      dest!: composite_frame fold_extra_cases)

lemma register_all_own_alias:
  "register_all c ns m = (r, m') \<Longrightarrow>
   \<forall>k c' n'. api m k = Some (Composite c' n') \<longrightarrow> n' = k \<Longrightarrow>
   \<forall>k c' n'. api m' k = Some (Composite c' n') \<longrightarrow> n' = k"
proof (induction ns arbitrary: m)
  case Nil
  then show ?case by simp
next
  case (Cons n ns)
  obtain r1 m1 where h: "register_name c n m = (r1, m1)" by (cases "register_name c n m")
  note f = register_name_own_alias [OF h Cons.prems(2)]
  show ?case
  proof (cases r1)
    case (Inl e)
    with Cons.prems h f show ?thesis by simp
  next
    case (Inr u)
    with Cons.prems h have "register_all c ns m1 = (r, m')" by simp
    from Cons.IH [OF this f] show ?thesis .
  qed
qed

lemma instantiate_api: "instantiate d m = (c, m1) \<Longrightarrow> api m1 = api m"
  by (cases d) (auto simp: allocate_def)

lemma install_own_alias:
  assumes i: "instantiate d m = (c, m1)"
    and w: "\<forall>k c' n'. api m k = Some (Composite c' n') \<longrightarrow> n' = k"
  shows "\<forall>k c' n'. api (snd (install d m)) k = Some (Composite c' n') \<longrightarrow> n' = k"
proof -
  let ?ns = "component_names (heap m1 c)"
  obtain r m2 where ra: "register_all c ?ns m1 = (r, m2)" by (cases "register_all c ?ns m1")
  from w instantiate_api [OF i]
  have "\<forall>k c' n'. api m1 k = Some (Composite c' n') \<longrightarrow> n' = k" by simp
  from register_all_own_alias [OF ra this] show ?thesis
    by (cases r) (simp_all add: install_result [OF i] ra)
qed

lemma install_api:
  assumes i: "instantiate d m = (c, m1)"
    and ok: "install d m = (Inr RetApi, m2)"
    and a: "a \<in> set (component_names (heap m1 c))"
    and x: "case mix_keys (heap m1 c) of None \<Rightarrow> True | Some ks \<Rightarrow> a \<notin> set ks"
  shows "api m2 a = Some (Composite c a)"
proof -
  let ?ns = "component_names (heap m1 c)"
  obtain r s where ra: "register_all c ?ns m1 = (r, s)" by (cases "register_all c ?ns m1")
  from ok ra obtain u where r: "r = Inr u"
    by (cases r) (simp_all add: install_result [OF i])
  from ok ra r have "api m2 = api s"
    by (auto simp: install_result [OF i])
  with register_all_api [OF ra [unfolded r] a x] show ?thesis by simp
qed

text \<open>
  C3. Two components are installed one after the other, both under the alias \<open>a\<close>; both
  installations complete, and the second component's own \<open>mix()\<close> members do not
  include \<open>a\<close>. Then the API surface maps \<open>a\<close> to the composite method of the second
  component. Calling \<open>a\<close> records the second component under \<open>a\<close> and runs the second
  component's \<open>register\<close> hook and no other; it returns the API surface when that hook
  returns. If the two components are different objects, no member of the API surface
  is the first component's composite method for \<open>a\<close> (given that, before, every
  composite method was stored under its own alias), and the call adds no call of the
  first component's hook.
\<close>

theorem last_install_wins:
  assumes "instantiate d1 m0 = (c1, s1)" and "install d1 m0 = (Inr RetApi, m1)"
    and "instantiate d2 m1 = (c2, s2)" and "install d2 m1 = (Inr RetApi, m2)"
    and "a \<in> set (component_names (heap s1 c1))"
    and "a \<in> set (component_names (heap s2 c2))"
    and "case mix_keys (heap s2 c2) of None \<Rightarrow> True | Some ks \<Rightarrow> a \<notin> set ks"
    and "\<forall>k c n. api m0 k = Some (Composite c n) \<longrightarrow> n = k"
  shows "api m2 a = Some (Composite c2 a)
    \<and> (hook_returns m2 c2 args \<longrightarrow> fst (invoke a args m2) = Inr RetApi)
    \<and> trace (snd (invoke a args m2)) =
        trace m2 @ [Recorded a c2, CallerSet c2 a] @
          (case hooks (heap m2 c2) Register of
             None \<Rightarrow> []
           | Some f \<Rightarrow> [HookCalled c2 Register args])
          @ (if hook_returns m2 c2 args then [ActivatedSet c2] else [])
    \<and> recorded (snd (invoke a args m2)) a = Some c2
    \<and> (c1 \<noteq> c2 \<longrightarrow>
         (\<forall>k. api m2 k \<noteq> Some (Composite c1 a))
         \<and> (\<forall>as. HookCalled c1 Register as \<notin>
               set (drop (length (trace m2)) (trace (snd (invoke a args m2))))))"
proof -
  have b: "api m2 a = Some (Composite c2 a)"
    using install_api [OF assms(3) assms(4) assms(6) assms(7)] .
  from install_own_alias [OF assms(1) assms(8)] assms(2)
  have w1: "\<forall>k c n. api m1 k = Some (Composite c n) \<longrightarrow> n = k" by simp
  from install_own_alias [OF assms(3) w1] assms(4)
  have w2: "\<forall>k c n. api m2 k = Some (Composite c n) \<longrightarrow> n = k" by simp
  have u: "\<forall>k. api m2 k \<noteq> Some (Composite c1 a)" if "c1 \<noteq> c2"
  proof (intro allI notI)
    fix k
    assume k: "api m2 k = Some (Composite c1 a)"
    with w2 have "a = k" by blast
    with k b that show False by simp
  qed
  have i: "invoke a args m2 = composite c2 a args m2"
    by (simp add: invoke_def b)
  note e = composite_effects [of c2 a args m2]
  have r: "fst (invoke a args m2) = Inr RetApi" if "hook_returns m2 c2 args"
    by (simp add: i composite_returns [OF that])
  have t: "\<forall>as. HookCalled c1 Register as \<notin>
      set (drop (length (trace m2)) (trace (snd (invoke a args m2))))" if "c1 \<noteq> c2"
    using that by (simp add: i e split: option.splits)
  from b u t r e show ?thesis by (simp add: i)
qed

theorem last_install_wins_witness:
  "install (PlainClass vue_component) (new_mix '''') =
     (Inr RetApi, snd (install (PlainClass vue_component) (new_mix '''')))
   \<and> ''vue'' \<in> set (component_names vue_component)
   \<and> ''vue'' \<in> set (component_names vue_loader)
   \<and> api (snd (install (PlainClass vue_loader)
        (snd (install (PlainClass vue_component) (new_mix ''''))))) ''vue'' =
       Some (Composite 1 ''vue'')
   \<and> trace (snd (invoke ''vue'' [JNum 3] (snd (install (PlainClass vue_loader)
        (snd (install (PlainClass vue_component) (new_mix ''''))))))) =
       [Recorded ''vue'' 1, CallerSet 1 ''vue'', HookCalled 1 Register [JNum 3], ActivatedSet 1]
   \<and> recorded (snd (invoke ''vue'' [JNum 3] (snd (install (PlainClass vue_loader)
        (snd (install (PlainClass vue_component) (new_mix ''''))))))) ''vue'' = Some 1
   \<and> (\<forall>k. api (snd (install (PlainClass vue_loader)
        (snd (install (PlainClass vue_component) (new_mix ''''))))) k \<noteq>
       Some (Composite 0 ''vue''))"
proof -
  let ?m0 = "new_mix ''''"
  let ?m1 = "snd (install (PlainClass vue_component) ?m0)"
  let ?m2 = "snd (install (PlainClass vue_loader) ?m1)"
  let ?s1 = "snd (instantiate (PlainClass vue_component) ?m0)"
  let ?s2 = "snd (instantiate (PlainClass vue_loader) ?m1)"
  have i1: "instantiate (PlainClass vue_component) ?m0 = (0, ?s1)"
    by (simp add: allocate_def new_mix_def)
  have o1: "install (PlainClass vue_component) ?m0 = (Inr RetApi, ?m1)"
    by (simp add: model_defs vue_component_def)
  have i2: "instantiate (PlainClass vue_loader) ?m1 = (1, ?s2)"
    by (simp add: model_defs vue_component_def)
  have o2: "install (PlainClass vue_loader) ?m1 = (Inr RetApi, ?m2)"
    by (simp add: model_defs vue_component_def vue_loader_def)
  have n1: "''vue'' \<in> set (component_names (heap ?s1 0))"
    by (simp add: model_defs vue_component_def)
  have c1: "''vue'' \<in> set (component_names vue_component)"
    by (simp add: model_defs vue_component_def)
  have n2: "''vue'' \<in> set (component_names (heap ?s2 1))"
    by (simp add: model_defs vue_component_def vue_loader_def)
  have c2: "''vue'' \<in> set (component_names vue_loader)"
    by (simp add: model_defs vue_loader_def)
  have x: "case mix_keys (heap ?s2 1) of None \<Rightarrow> True | Some ks \<Rightarrow> ''vue'' \<notin> set ks"
    by (simp add: model_defs vue_component_def vue_loader_def)
  have h: "hook_returns ?m2 1 [JNum 3]"
    by (simp add: hook_returns_def model_defs vue_component_def vue_loader_def)
  have w: "\<forall>k c n. api ?m0 k = Some (Composite c n) \<longrightarrow> n = k"
    by (simp add: new_mix_def)
  have t: "trace ?m2 = []" and k: "hooks (heap ?m2 1) Register = Some (\<lambda>_. None)"
    by (simp_all add: model_defs vue_component_def vue_loader_def)
  from last_install_wins [OF i1 o1 i2 o2 n1 n2 x w, of "[JNum 3]"] o1 c1 c2 t k h show ?thesis
    by simp
qed

lemma popCurrent_heap: "heap (snd (popCurrent m)) = heap m"
  by (simp add: popCurrent_def currentGroup_def group_makeCurrent_def emit_def Let_def)

lemma pushCurrent_heap [simp]: "heap (pushCurrent g m) = heap m"
  by (simp add: pushCurrent_def group_makeCurrent_def emit_def)

lemma whileCurrent_heap:
  "heap (snd (whileCurrent g fn m)) = heap (snd (fn (pushCurrent g m)))"
proof -
  obtain r m2 where f: "fn (pushCurrent g m) = (r, m2)" by (cases "fn (pushCurrent g m)")
  obtain r3 m3 where p: "popCurrent m2 = (r3, m3)" by (cases "popCurrent m2")
  from popCurrent_heap [of m2] p have "heap m3 = heap m2" by simp
  then show ?thesis
    by (cases r3) (simp_all add: whileCurrent_def f p)
qed

lemma dispatch_heap: "heap (snd (dispatch ev data m)) = heap m"
  by (cases data)
    (simp_all add: dispatch_def whileCurrent_heap fire_frame split: option.splits)

text \<open>
  C4. Let \<open>install\<close> work on the component object \<open>c\<close>. If the component is passive, has
  at least one alias, and its \<open>register\<close> hook is absent or returns when called without
  arguments, \<open>install\<close> completes and \<open>activated\<close> is true afterwards, with no call from
  user code; and whenever \<open>install\<close> of a passive component with an alias completes,
  \<open>activated\<close> is true. If the component is not passive and not yet activated, \<open>install\<close> completes
  without any effect on its collaborators and \<open>activated\<close> is still false. It stays as
  it is when another component is installed, when the composite method of another
  component is called and when an event is dispatched; and it is true after a call of
  one of its own composite methods (whose hook returns).
\<close>

theorem activation:
  assumes "instantiate d m = (c, m1)"
  shows "(passive_flag (heap m1 c) \<and> component_names (heap m1 c) \<noteq> [] \<and> hook_returns m1 c []
       \<longrightarrow> fst (install d m) = Inr RetApi \<and> activated (heap (snd (install d m)) c))
    \<and> (passive_flag (heap m1 c) \<and> component_names (heap m1 c) \<noteq> []
         \<and> fst (install d m) = Inr RetApi
       \<longrightarrow> activated (heap (snd (install d m)) c))
    \<and> (\<not> passive_flag (heap m1 c) \<and> \<not> activated (heap m1 c)
       \<longrightarrow> fst (install d m) = Inr RetApi \<and> \<not> activated (heap (snd (install d m)) c)
           \<and> trace (snd (install d m)) = trace m)
    \<and> (instantiate d' s = (c', s1) \<and> c' \<noteq> c
       \<longrightarrow> activated (heap (snd (install d' s)) c) = activated (heap s c))
    \<and> (c' \<noteq> c
       \<longrightarrow> activated (heap (snd (composite c' name' args' s)) c) = activated (heap s c))
    \<and> activated (heap (snd (dispatch ev data s)) c) = activated (heap s c)
    \<and> (api s name = Some (Composite c name) \<and> hook_returns s c args
       \<longrightarrow> fst (invoke name args s) = Inr RetApi \<and> activated (heap (snd (invoke name args s)) c))"
proof -
  have p: "fst (install d m) = Inr RetApi \<and> activated (heap (snd (install d m)) c)"
    if "passive_flag (heap m1 c) \<and> component_names (heap m1 c) \<noteq> [] \<and> hook_returns m1 c []"
    using install_passive [OF assms] that by blast
  have p': "activated (heap (snd (install d m)) c)"
    if "passive_flag (heap m1 c) \<and> component_names (heap m1 c) \<noteq> []
      \<and> fst (install d m) = Inr RetApi"
    using install_passive_completed [OF assms] that by blast
  have n: "fst (install d m) = Inr RetApi \<and> \<not> activated (heap (snd (install d m)) c)
      \<and> trace (snd (install d m)) = trace m"
    if "\<not> passive_flag (heap m1 c) \<and> \<not> activated (heap m1 c)"
    using install_not_passive [OF assms] that by simp
  have o: "activated (heap (snd (install d' s)) c) = activated (heap s c)"
    if "instantiate d' s = (c', s1) \<and> c' \<noteq> c"
    using install_heap_other [of d' s c' s1 c] that by simp
  have q: "activated (heap (snd (composite c' name' args' s)) c) = activated (heap s c)"
    if "c' \<noteq> c"
  proof -
    obtain r s' where e: "composite c' name' args' s = (r, s')"
      by (cases "composite c' name' args' s")
    from composite_heap [OF e] that show ?thesis by (simp add: e)
  qed
  have i: "fst (invoke name args s) = Inr RetApi \<and> activated (heap (snd (invoke name args s)) c)"
    if "api s name = Some (Composite c name) \<and> hook_returns s c args"
    using that by (simp add: invoke_def composite_returns)
  from p p' n o q i show ?thesis by (simp add: dispatch_heap)
qed

theorem activation_witness:
  "instantiate (PlainClass sass_component) (new_mix '''') =
     (0, snd (instantiate (PlainClass sass_component) (new_mix '''')))
   \<and> passive_flag sass_component \<and> component_names sass_component = [''sass'']
   \<and> fst (install (PlainClass sass_component) (new_mix '''')) = Inr RetApi
   \<and> activated (heap (snd (install (PlainClass sass_component) (new_mix ''''))) 0)
   \<and> \<not> passive_flag vue_component \<and> \<not> activated vue_component
   \<and> \<not> activated (heap (snd (install (PlainClass vue_component) (new_mix ''''))) 0)
   \<and> activated (heap (snd (invoke ''vue'' []
        (snd (install (PlainClass vue_component) (new_mix ''''))))) 0)"
proof -
  let ?m = "new_mix ''''"
  let ?s = "snd (instantiate (PlainClass sass_component) ?m)"
  let ?v = "snd (instantiate (PlainClass vue_component) ?m)"
  let ?m1 = "snd (install (PlainClass vue_component) ?m)"
  have i: "instantiate (PlainClass sass_component) ?m = (0, ?s)"
    by (simp add: allocate_def new_mix_def)
  have j: "instantiate (PlainClass vue_component) ?m = (0, ?v)"
    by (simp add: allocate_def new_mix_def)
  have hs: "heap ?s 0 = sass_component" and hv: "heap ?v 0 = vue_component"
    by (simp_all add: allocate_def new_mix_def)
  have ps: "passive_flag sass_component" and ns: "component_names sass_component = [''sass'']"
    by (simp_all add: sass_component_def blank_component_def component_names_def)
  have hr: "hook_returns ?s 0 []"
    by (simp add: hook_returns_def allocate_def new_mix_def sass_component_def
        blank_component_def)
  have pv: "\<not> passive_flag vue_component" and av: "\<not> activated vue_component"
    by (simp_all add: vue_component_def blank_component_def)
  have a: "api ?m1 ''vue'' = Some (Composite 0 ''vue'')" and h: "hook_returns ?m1 0 []"
    by (simp_all add: hook_returns_def model_defs vue_component_def)
  note s = activation [OF i]
  note v = activation [OF j]
  from s hs ps ns hr
  have r1: "fst (install (PlainClass sass_component) ?m) = Inr RetApi
      \<and> activated (heap (snd (install (PlainClass sass_component) ?m)) 0)"
    by simp
  from v hv pv av
  have r2: "\<not> activated (heap ?m1 0)"
    by simp
  from activation [OF j, of d' ?m1 c' s1 name' args' ev data "''vue''" "[]"] a h
  have r3: "activated (heap (snd (invoke ''vue'' [] ?m1)) 0)"
    by blast
  from i ps ns r1 pv av r2 r3 show ?thesis by blast
qed

section \<open>Properties of the manifest\<close>

lemma split_on_no_sep: "sep \<notin> set s \<Longrightarrow> split_on sep s = [s]"
  by (induction s) auto

lemma slash_not_word_char: "\<not> word_char CHR ''/''"
  by (simp add: word_char_def)

lemma word_char_no_slash:
  assumes "list_all word_char h"
  shows "CHR ''/'' \<notin> set h"
proof
  assume "CHR ''/'' \<in> set h"
  with assms have "word_char CHR ''/''" by (simp add: list_all_iff)
  with slash_not_word_char show False by blast
qed

lemma map_of_assign: "map_of (assign m key v) key = Some v"
  by (induction m key v rule: assign.induct) auto

lemma assign_twice: "assign (assign m key v) key v = assign m key v"
  by (induction m key v rule: assign.induct) auto

lemma normalizePath_app_js: "normalizePath [] ''/js/app.js'' = ''/js/app.js''"
  by code_simp

lemma strip_id_app_js: "strip_id ''/js/app.js'' = ''/js/app.js''"
  by code_simp

lemma join_app_js: "posix_join [] (Some ''/js/app.js'') = Inr ''/js/app.js''"
  by code_simp

lemma join_hashed:
  assumes "h \<noteq> []" and "CHR ''/'' \<notin> set h"
  shows "posix_join [] (Some (''/js/app.js?id='' @ h)) = Inr (''/js/app.js?id='' @ h)"
proof -
  from assms(1) have "last h \<in> set h" by simp
  with assms(2) have l: "last h \<noteq> CHR ''/''" by auto
  from assms(1) l show ?thesis
    by (simp add: posix_normalize_def split_on_no_sep [OF assms(2)])
qed

lemma get_after_add:
  assumes "f \<noteq> []" and "strip_id (normalizePath pub f) = normalizePath pub f"
  shows "manifest_get le pub (Some f) (add pub f m) =
     (case posix_join pub (Some (normalizePath pub f)) of Inl e \<Rightarrow> Inl e | Inr p \<Rightarrow> Inr (Path p))"
  using assms by (simp add: manifest_get_def add_def map_of_assign Let_def)

lemma get_empty_path:
  "manifest_get le pub (Some []) m = Inr (Entries (sort_by (\<lambda>a b. le (fst a) (fst b)) m))"
  by (simp add: manifest_get_def)

text \<open>
  C8 as stated fails when a public path is configured: \<open>get\<close> joins the public path
  and the entry. With \<open>publicPath = 'public'\<close> (what \<open>boot\<close> sets in a Laravel
  project) the normalized original path is \<open>/js/app.js\<close>, but \<open>get\<close> after \<open>add\<close>
  returns \<open>public/js/app.js\<close>.
\<close>

theorem get_prepends_publicPath:
  "normalizePath ''public'' ''/js/app.js'' = ''/js/app.js''
   \<and> manifest_get keep_order ''public'' (Some ''/js/app.js'')
        (add ''public'' ''/js/app.js'' []) = Inr (Path ''public/js/app.js'')
   \<and> manifest_get keep_order ''public'' (Some ''/js/app.js'')
        (add ''public'' ''/js/app.js'' []) \<noteq> Inr (Path ''/js/app.js'')"
  by code_simp

text \<open>
  C8, as amended. With an empty public path, whatever the manifest held before:
  \<open>get\<close> after \<open>add\<close> of \<open>/js/app.js\<close> returns \<open>/js/app.js\<close>; if the file has content \<open>C\<close>
  and the hash of \<open>C\<close> is 20 word characters, \<open>hash\<close> stores the path followed by
  \<open>?id=\<close> and the hash, \<open>get\<close> returns exactly that, and hashing again with the content
  unchanged gives the same manifest. With any public path, \<open>get\<close> after \<open>add\<close> of a path
  that carries no id suffix returns the POSIX join of the public path and the
  normalized path.
\<close>

theorem manifest_round_trip:
  assumes "fs ''/js/app.js'' = Some C"
    and "length (hash20 C) = 20"
    and "list_all word_char (hash20 C)"
  shows "manifest_get le [] (Some ''/js/app.js'') (add [] ''/js/app.js'' m) =
      Inr (Path ''/js/app.js'')
    \<and> hash fs hash20 [] ''/js/app.js'' m =
        Inr (assign m ''/js/app.js'' (''/js/app.js?id='' @ hash20 C))
    \<and> manifest_get le [] (Some ''/js/app.js'')
        (assign m ''/js/app.js'' (''/js/app.js?id='' @ hash20 C)) =
        Inr (Path (''/js/app.js?id='' @ hash20 C))
    \<and> hash fs hash20 [] ''/js/app.js''
        (assign m ''/js/app.js'' (''/js/app.js?id='' @ hash20 C)) =
        Inr (assign m ''/js/app.js'' (''/js/app.js?id='' @ hash20 C))
    \<and> (f \<noteq> [] \<and> strip_id (normalizePath pub f) = normalizePath pub f \<longrightarrow>
         manifest_get le pub (Some f) (add pub f m) =
           (case posix_join pub (Some (normalizePath pub f)) of
              Inl e \<Rightarrow> Inl e
            | Inr p \<Rightarrow> Inr (Path p)))"
proof -
  let ?h = "hash20 C"
  let ?e = "''/js/app.js?id='' @ ?h"
  from assms(2) have ne: "?h \<noteq> []" by auto
  note ns = word_char_no_slash [OF assms(3)]
  have a: "manifest_get le [] (Some ''/js/app.js'') (add [] ''/js/app.js'' m) =
      Inr (Path ''/js/app.js'')"
    by (simp only: manifest_get_def add_def normalizePath_app_js strip_id_app_js Let_def
        map_of_assign join_app_js option.case sum.case list.distinct if_True not_False_eq_True)
  have b: "hash fs hash20 [] ''/js/app.js'' m' = Inr (assign m' ''/js/app.js'' ?e)" for m'
    by (simp only: hash_def join_app_js sum.case file_version_def assms(1) option.case
        normalizePath_app_js Let_def append.simps)
  have c: "manifest_get le [] (Some ''/js/app.js'') (assign m ''/js/app.js'' ?e) =
      Inr (Path ?e)"
    by (simp only: manifest_get_def normalizePath_app_js map_of_assign join_hashed [OF ne ns]
        option.case sum.case list.distinct if_True not_False_eq_True)
  have d: "hash fs hash20 [] ''/js/app.js'' (assign m ''/js/app.js'' ?e) =
      Inr (assign m ''/js/app.js'' ?e)"
    by (simp only: b assign_twice)
  from a b [of m] c d get_after_add [of f pub le m] show ?thesis by blast
qed

theorem manifest_round_trip_witness:
  "[''/js/app.js'' \<mapsto> ''alert(1)''] ''/js/app.js'' = Some ''alert(1)''
   \<and> length ''0123456789abcdef0123'' = 20
   \<and> list_all word_char ''0123456789abcdef0123''
   \<and> manifest_get keep_order [] (Some ''/js/app.js'') (add [] ''/js/app.js'' []) =
       Inr (Path ''/js/app.js'')
   \<and> hash [''/js/app.js'' \<mapsto> ''alert(1)''] (\<lambda>c. ''0123456789abcdef0123'') [] ''/js/app.js'' [] =
       Inr [(''/js/app.js'', ''/js/app.js?id=0123456789abcdef0123'')]
   \<and> manifest_get keep_order [] (Some ''/js/app.js'')
       [(''/js/app.js'', ''/js/app.js?id=0123456789abcdef0123'')] =
       Inr (Path ''/js/app.js?id=0123456789abcdef0123'')"
proof -
  have f: "[''/js/app.js'' \<mapsto> ''alert(1)''] ''/js/app.js'' = Some ''alert(1)''" by simp
  have l: "length ((\<lambda>c. ''0123456789abcdef0123'') ''alert(1)'') = 20" by simp
  have w: "list_all word_char ((\<lambda>c. ''0123456789abcdef0123'') ''alert(1)'')"
    by (simp add: word_char_def)
  from manifest_round_trip [of "[''/js/app.js'' \<mapsto> ''alert(1)'']" "''alert(1)''"
      "\<lambda>c. ''0123456789abcdef0123''" keep_order "[]", OF f l w] f l w
  show ?thesis by simp
qed

lemma map_of_assign_other: "k \<noteq> key \<Longrightarrow> map_of (assign m key v) k = map_of m k"
  by (induction m key v rule: assign.induct) auto

lemma apply_op_other:
  assumes "k \<noteq> op_key pub op"
  shows "map_of (apply_op fs hash20 pub op m) k = map_of m k"
proof (cases op)
  case (Add q)
  with assms show ?thesis by (simp add: add_def Let_def map_of_assign_other)
next
  case (Hash q)
  with assms show ?thesis
    by (auto simp: hash_def Let_def map_of_assign_other split: sum.splits)
qed

lemma apply_ops_other:
  "k \<notin> op_key pub ` set ops \<Longrightarrow>
     map_of (fold (apply_op fs hash20 pub) ops m) k = map_of m k"
  by (induction ops arbitrary: m) (simp_all add: apply_op_other)

text \<open>
  C10. For a non-empty path whose normalized form has no entry in the manifest, \<open>get\<close>
  does not return a path: the lookup gives \<open>undefined\<close> and \<open>path.posix.join\<close> throws
  its \<open>TypeError\<close> for a non-string argument, whatever the public path is. This is the
  case, in particular, in a manifest built by calls of \<open>add\<close> and \<open>hash\<close> none of which
  wrote the key that the path normalizes to.
\<close>

theorem get_unknown_path_throws:
  "(p \<noteq> [] \<and> map_of m (normalizePath pub p) = None \<longrightarrow>
      manifest_get le pub (Some p) m = Inl invalid_arg_type)
   \<and> (p \<noteq> [] \<and> normalizePath pub p \<notin> op_key pub ` set ops \<longrightarrow>
      manifest_get le pub (Some p) (fold (apply_op fs hash20 pub) ops []) =
        Inl invalid_arg_type)"
proof -
  have a: "manifest_get le pub (Some p) m' = Inl invalid_arg_type"
    if "p \<noteq> []" and "map_of m' (normalizePath pub p) = None" for m'
    using that by (simp add: manifest_get_def)
  have b: "map_of (fold (apply_op fs hash20 pub) ops []) (normalizePath pub p) = None"
    if "normalizePath pub p \<notin> op_key pub ` set ops"
    using apply_ops_other [OF that, of fs hash20 "[]"] by simp
  have c: "p \<noteq> [] \<and> map_of m (normalizePath pub p) = None \<longrightarrow>
      manifest_get le pub (Some p) m = Inl invalid_arg_type"
    using a [of m] by simp
  have d: "p \<noteq> [] \<and> normalizePath pub p \<notin> op_key pub ` set ops \<longrightarrow>
      manifest_get le pub (Some p) (fold (apply_op fs hash20 pub) ops []) =
        Inl invalid_arg_type"
    using a [of "fold (apply_op fs hash20 pub) ops []"] b by simp
  from c d show ?thesis by (rule conjI)
qed

theorem get_unknown_path_throws_witness:
  "''/css/app.css'' \<noteq> []
   \<and> normalizePath ''public'' ''/css/app.css'' \<notin>
       op_key ''public'' ` set [Add ''js/app.js'', Hash ''/js/vendor.js'']
   \<and> fold (apply_op [''public/js/vendor.js'' \<mapsto> ''alert(1)''] (\<lambda>c. ''0123456789abcdef0123'')
        ''public'') [Add ''js/app.js'', Hash ''/js/vendor.js''] [] =
       [(''/js/app.js'', ''/js/app.js''),
        (''/js/vendor.js'', ''/js/vendor.js?id=0123456789abcdef0123'')]
   \<and> manifest_get keep_order ''public'' (Some ''/css/app.css'')
        (fold (apply_op [''public/js/vendor.js'' \<mapsto> ''alert(1)''] (\<lambda>c. ''0123456789abcdef0123'')
           ''public'') [Add ''js/app.js'', Hash ''/js/vendor.js''] []) = Inl invalid_arg_type"
proof -
  have a: "''/css/app.css'' \<noteq> []" by simp
  have b: "normalizePath ''public'' ''/css/app.css'' \<notin>
       op_key ''public'' ` set [Add ''js/app.js'', Hash ''/js/vendor.js'']"
    by code_simp
  have c: "fold (apply_op [''public/js/vendor.js'' \<mapsto> ''alert(1)''] (\<lambda>c. ''0123456789abcdef0123'')
        ''public'') [Add ''js/app.js'', Hash ''/js/vendor.js''] [] =
       [(''/js/app.js'', ''/js/app.js''),
        (''/js/vendor.js'', ''/js/vendor.js?id=0123456789abcdef0123'')]"
    by code_simp
  from get_unknown_path_throws [of "''/css/app.css''" m "''public''" keep_order
      "[Add ''js/app.js'', Hash ''/js/vendor.js'']"
      "[''public/js/vendor.js'' \<mapsto> ''alert(1)'']" "\<lambda>c. ''0123456789abcdef0123''"] a b
  have "manifest_get keep_order ''public'' (Some ''/css/app.css'')
        (fold (apply_op [''public/js/vendor.js'' \<mapsto> ''alert(1)''] (\<lambda>c. ''0123456789abcdef0123'')
           ''public'') [Add ''js/app.js'', Hash ''/js/vendor.js''] []) = Inl invalid_arg_type"
    by blast
  with a b c show ?thesis by blast
qed

end
